theory Spec2Isabelle
  imports Complex_Main "HOL-Library.Sublist"
begin

section \<open>TableOfContents: content, items and aliasing\<close>

text \<open>
  \<^verbatim>\<open>types/DocumentRepresentation/TableOfContents.ts\<close>. The getter of \<open>content\<close> hands
  out the array held in \<open>_content\<close> itself, so a caller can change that array in
  place. Arrays of elements therefore live in a store, addressed by reference; the
  object holds the reference. \<open>_items\<close> is only ever assigned a fresh array (the result
  of \<open>map\<close>), so it is kept by value.

  \<open>TableOfContentsItem\<close> is not part of the sources at hand; its constructor is called
  with three arguments, which the record below keeps in order. \<open>Element.toMarkdown\<close> is a
  method of the polymorphic element class and is taken as a parameter \<open>md\<close>.
\<close>

type_synonym addr = nat

type_synonym 'e arrays = "addr \<Rightarrow> 'e list"

record tocItem =
  description :: string
  pageNum :: string
  level :: int

record toc =
  content_ref :: addr
  items_val :: "tocItem list"

text \<open>The state of a run: the store of element arrays and one TableOfContents object.\<close>

type_synonym 'e toc_state = "'e arrays \<times> toc"

definition contentToTOCItem :: "('e \<Rightarrow> string) \<Rightarrow> 'e \<Rightarrow> tocItem" where
  "contentToTOCItem md element = \<lparr>description = md element, pageNum = ''0'', level = 0\<rparr>"

definition get_content :: "'e toc_state \<Rightarrow> 'e list" where
  "get_content st = fst st (content_ref (snd st))"

definition get_items :: "'e toc_state \<Rightarrow> tocItem list" where
  "get_items st = items_val (snd st)"

definition set_items :: "'e toc_state \<Rightarrow> tocItem list \<Rightarrow> 'e toc_state" where
  "set_items st its = (fst st, (snd st)\<lparr>items_val := its\<rparr>)"

definition updateItems :: "('e \<Rightarrow> string) \<Rightarrow> 'e toc_state \<Rightarrow> 'e toc_state" where
  "updateItems md st = set_items st (map (contentToTOCItem md) (get_content st))"

text \<open>\<open>toc.content = value\<close>, where \<open>value\<close> is the reference \<open>a\<close>.\<close>

definition set_content :: "('e \<Rightarrow> string) \<Rightarrow> 'e toc_state \<Rightarrow> addr \<Rightarrow> 'e toc_state" where
  "set_content md st a = updateItems md (fst st, (snd st)\<lparr>content_ref := a\<rparr>)"

text \<open>\<open>toc.content.push(e)\<close>: the array behind the getter is changed in place.\<close>

definition push_content :: "'e toc_state \<Rightarrow> 'e \<Rightarrow> 'e toc_state" where
  "push_content st e =
     ((fst st)(content_ref (snd st) := fst st (content_ref (snd st)) @ [e]), snd st)"

text \<open>
  Any other change in place of the array behind the getter (\<open>pop\<close>, \<open>splice\<close>, \<open>sort\<close>,
  \<open>toc.content[i] = e\<close> with \<open>i\<close> inside the array, ...): the array at the reference
  is replaced by \<open>f\<close> of itself; no setter runs, so the object is left as it is.
\<close>

definition mutate_content :: "'e toc_state \<Rightarrow> ('e list \<Rightarrow> 'e list) \<Rightarrow> 'e toc_state" where
  "mutate_content st f =
     ((fst st)(content_ref (snd st) := f (fst st (content_ref (snd st)))), snd st)"

text \<open>
  A sample run: a fresh object (\<open>_content\<close> and \<open>_items\<close> both empty arrays, the former at
  reference 0), and an array of two headings at reference 1 whose markdown is the
  heading after \<^verbatim>\<open># \<close>.
\<close>

definition sample_arrays :: "string arrays" where
  "sample_arrays = (\<lambda>_. [])(1 := [''Intro'', ''Scope''])"

definition sample_toc :: toc where
  "sample_toc = \<lparr>content_ref = 0, items_val = []\<rparr>"

definition heading_md :: "string \<Rightarrow> string" where
  "heading_md s = ''# '' @ s"

section \<open>Shared notions: errors and promises\<close>

text \<open>
  An exception of the source is a value of \<open>error\<close>. A promise is modelled by the way it
  ends: fulfilled with a value, rejected with an error, or never settled (\<open>Pending\<close>),
  which is what a caller awaiting it observes as a run that does not return.
\<close>

datatype error =
    TypeError
  | RangeError
  | SpawnError
  | ReturnCode "int option"
  | StderrOutput string
  | ParseXmlFailed

datatype 'a promise = Fulfilled 'a | Rejected error | Pending

text \<open>\<open>xs.map(f)\<close> where \<open>f\<close> may throw: the first exception ends the traversal.\<close>

fun traverse :: "('a \<Rightarrow> error + 'b) \<Rightarrow> 'a list \<Rightarrow> error + 'b list" where
  "traverse f [] = Inr []"
| "traverse f (x # xs) =
     (case f x of
        Inl e \<Rightarrow> Inl e
      | Inr y \<Rightarrow> (case traverse f xs of Inl e \<Rightarrow> Inl e | Inr ys \<Rightarrow> Inr (y # ys)))"

text \<open>\<open>s.includes(pat)\<close> on strings, and a pattern searched without regard to case.\<close>

fun includes_str :: "string \<Rightarrow> string \<Rightarrow> bool" where
  "includes_str pat [] = (pat = [])"
| "includes_str pat (c # cs) = (prefix pat (c # cs) \<or> includes_str pat cs)"

definition is_upper :: "char \<Rightarrow> bool" where
  "is_upper c = (65 \<le> (of_char c :: nat) \<and> (of_char c :: nat) \<le> 90)"

definition is_lower :: "char \<Rightarrow> bool" where
  "is_lower c = (97 \<le> (of_char c :: nat) \<and> (of_char c :: nat) \<le> 122)"

definition lower_char :: "char \<Rightarrow> char" where
  "lower_char c = (if is_upper c then char_of ((of_char c :: nat) + 32) else c)"

definition upper_char :: "char \<Rightarrow> char" where
  "upper_char c = (if is_lower c then char_of ((of_char c :: nat) - 32) else c)"

definition toLowerCase :: "string \<Rightarrow> string" where
  "toLowerCase s = map lower_char s"

definition toUpperCase :: "string \<Rightarrow> string" where
  "toUpperCase s = map upper_char s"

definition test_ci :: "string \<Rightarrow> string \<Rightarrow> bool" where
  "test_ci pat s = includes_str pat (toLowerCase s)"

section \<open>The pdfminer backend\<close>

text \<open>
  \<^verbatim>\<open>input/pdfminer/pdfminer.ts\<close>. Numbers are reals: the numeric attributes of
  pdfminer's XML (\<open>size\<close>, \<open>bbox\<close>, the page \<open>id\<close>) are taken as already read by
  \<open>parseFloat\<close>, a \<open>bbox\<close> being the four numbers \<open>x0, y0, x1, y1\<close>, and the colour of
  a character as already converted by \<open>ncolourToHex\<close>. Strings are byte strings; the
  case-insensitive tests cover the ASCII letters.
\<close>

subsection \<open>The document representation\<close>

record boundingBox =
  bleft :: real
  btop :: real
  bwidth :: real
  bheight :: real

datatype fontWeight = Medium | Bold

record font =
  name :: string
  fsize :: real
  weight :: fontWeight
  isItalic :: bool
  isUnderline :: bool
  color :: string

record character =
  cbox :: boundingBox
  ccontent :: string
  cfont :: font

record word =
  wbox :: boundingBox
  wcontent :: "character list"
  wfont :: font
  properties :: "string \<rightharpoonup> string"

record image =
  ibox :: boundingBox
  src :: string

datatype element = EWord word | EImage image

record page =
  pageNumber :: int
  elements :: "element list"
  pbox :: boundingBox

record document =
  pages :: "page list"
  inputFile :: string

text \<open>
  Modelled from the spec: \<open>Font.isEqual\<close>, \<open>Font.undefinedFont\<close> and \<open>BoundingBox.merge\<close>
  belong to classes that are not among the sources. Two fonts are equal iff all fields
  match exactly; the undefined font is an explicit sentinel; \<open>merge\<close> gives the smallest
  box covering all its inputs (the spec says nothing of an empty input, for which the box
  at the origin stands here).
\<close>

definition isEqual :: "font \<Rightarrow> font \<Rightarrow> bool" where
  "isEqual a b =
     (name b = name a \<and> fsize b = fsize a \<and> weight b = weight a \<and> isItalic b = isItalic a
      \<and> isUnderline b = isUnderline a \<and> color b = color a)"

definition undefinedFont :: font where
  "undefinedFont = \<lparr>name = ''undefined'', fsize = 0, weight = Medium, isItalic = False,
     isUnderline = False, color = ''#000000''\<rparr>"

definition merge :: "boundingBox list \<Rightarrow> boundingBox" where
  "merge boxes =
     (case boxes of
        [] \<Rightarrow> \<lparr>bleft = 0, btop = 0, bwidth = 0, bheight = 0\<rparr>
      | b # bs \<Rightarrow>
          (let l = foldl min (bleft b) (map bleft bs);
               t = foldl min (btop b) (map btop bs);
               r = foldl max (bleft b + bwidth b) (map (\<lambda>x. bleft x + bwidth x) bs);
               d = foldl max (btop b + bheight b) (map (\<lambda>x. btop x + bheight x) bs)
           in \<lparr>bleft = l, btop = t, bwidth = r - l, bheight = d - t\<rparr>))"

subsection \<open>The shape of pdfminer's output\<close>

text \<open>
  The types \<open>PdfminerPage\<close>, \<open>PdfminerTextline\<close>, \<open>PdfminerText\<close> and \<open>PdfminerFigure\<close>
  are declared outside the sources at hand; the records follow the fields the code reads.
  \<open>slot_text\<close> is the field \<open>_\<close> of a character slot and \<open>slot_attr\<close> its field
  \<open>_attr\<close>; \<open>None\<close> is \<open>undefined\<close>. \<open>line_text\<close> is the field \<open>text\<close> of a line.
\<close>

type_synonym quad = "real \<times> real \<times> real \<times> real"

record textAttr =
  a_font :: string
  a_size :: real
  a_bbox :: quad
  a_colour :: string

record pdfminerText =
  slot_text :: "string option"
  slot_attr :: "textAttr option"

record pdfminerTextline =
  line_text :: "pdfminerText list"

record pdfminerTextbox =
  textline :: "pdfminerTextline list"

record pdfminerImage =
  img_src :: string

record pdfminerFigure =
  fig_bbox :: quad
  fig_image :: "pdfminerImage list"

record pdfminerPage =
  page_id :: int
  page_bbox :: quad
  textbox :: "pdfminerTextbox list option"
  figure :: "pdfminerFigure list option"

subsection \<open>Boxes, fonts and characters\<close>

definition getBoundingBox :: "quad \<Rightarrow> real \<Rightarrow> real \<Rightarrow> boundingBox" where
  "getBoundingBox bbox pageHeight scalingFactor =
     (case bbox of (x0, y0, x1, y1) \<Rightarrow>
        (let v0 = x0 * scalingFactor; v1 = y0 * scalingFactor;
             v2 = x1 * scalingFactor; v3 = y1 * scalingFactor;
             width = \<bar>v2 - v0\<bar>;
             height = \<bar>v1 - v3\<bar>;
             left = v0;
             top = \<bar>pageHeight - v1\<bar> - height
         in \<lparr>bleft = left, btop = top, bwidth = width, bheight = height\<rparr>))"

text \<open>
  \<open>baskets.sort((a, b) => b.length - a.length)\<close>: the sort of an array by a comparator
  is stable (ECMAScript 2019), and for a comparator that orders by a key every stable
  sort gives the same array; an insertion sort that keeps equal elements in their order
  stands for it.
\<close>

fun insert_by :: "('a \<Rightarrow> 'a \<Rightarrow> int) \<Rightarrow> 'a \<Rightarrow> 'a list \<Rightarrow> 'a list" where
  "insert_by cmp x [] = [x]"
| "insert_by cmp x (y # ys) = (if cmp x y \<le> 0 then x # y # ys else y # insert_by cmp x ys)"

definition array_sort :: "('a \<Rightarrow> 'a \<Rightarrow> int) \<Rightarrow> 'a list \<Rightarrow> 'a list" where
  "array_sort cmp xs = foldr (insert_by cmp) xs []"

text \<open>The test of the inner \<open>forEach\<close> of \<open>getMostCommonFont\<close>, and one round of the outer.\<close>

definition basket_takes :: "font \<Rightarrow> font list \<Rightarrow> bool" where
  "basket_takes font basket = (length basket > 0 \<and> isEqual (hd basket) font)"

definition place_font :: "font list list \<Rightarrow> font \<Rightarrow> font list list" where
  "place_font baskets font =
     (let pushed = map (\<lambda>basket. if basket_takes font basket then basket @ [font] else basket)
                     baskets;
          basketFound = list_ex (basket_takes font) baskets
      in if \<not> basketFound then pushed @ [[font]] else pushed)"

definition getMostCommonFont :: "font list \<Rightarrow> font" where
  "getMostCommonFont theFonts =
     (let fonts = foldl (\<lambda>a b. a @ [b]) [] theFonts;
          baskets = foldl place_font [] fonts;
          sorted = array_sort (\<lambda>a b. int (length b) - int (length a)) baskets
      in (case sorted of
            (f # _) # _ \<Rightarrow> f
          | _ \<Rightarrow> undefinedFont))"

definition getValidCharacter :: "string \<Rightarrow> string" where
  "getValidCharacter character = (if includes_str ''(cid:'' character then ''?'' else character)"

text \<open>
  The source of an image is \<open>path.join(imagsLocation, img.$.src)\<close>. It is kept here as the
  two parts with one separator between them; the normal form \<open>path.join\<close> brings the result
  to (doubled separators, \<^verbatim>\<open>.\<close> and \<^verbatim>\<open>..\<close> segments resolved) is outside the model.
\<close>

definition interpretImages :: "pdfminerFigure \<Rightarrow> string \<Rightarrow> real \<Rightarrow> real \<Rightarrow> image list" where
  "interpretImages fig imagsLocation pageHeight scalingFactor =
     map (\<lambda>img. \<lparr>ibox = getBoundingBox (fig_bbox fig) pageHeight scalingFactor,
                 src = imagsLocation @ ''/'' @ img_src img\<rparr>)
       (fig_image fig)"

subsection \<open>Line reconstruction\<close>

text \<open>The zero width space U+200B, as the three bytes of its UTF-8 encoding.\<close>

definition notAllowedChars :: "string list" where
  "notAllowedChars = [[CHR 0xE2, CHR 0x80, CHR 0x8B]]"

definition thereAreFakeSpaces :: "pdfminerTextline \<Rightarrow> bool" where
  "thereAreFakeSpaces lines =
     (let indexed = zip (line_text lines) [0 ..< length (line_text lines)];
          emptyWithAttr =
            map snd (filter (\<lambda>(w, pos). slot_text w = None \<and> slot_attr w \<noteq> None) indexed);
          emptyWithNoAttr =
            map snd (filter (\<lambda>(w, pos). slot_text w = None \<and> slot_attr w = None) indexed)
      in foldl (\<lambda>fakeSpaces pos. if pos + 1 \<in> set emptyWithAttr then True else fakeSpaces)
           False emptyWithNoAttr)"

definition isFakeChar :: "pdfminerText \<Rightarrow> bool \<Rightarrow> bool" where
  "isFakeChar w fakeSpacesInLine =
     (if fakeSpacesInLine \<and> slot_text w = None \<and> slot_attr w = None then True else False)"

text \<open>The predicate of the \<open>filter\<close> over the slots of a line, and the slots it leaves.\<close>

definition keeps_slot :: "bool \<Rightarrow> pdfminerText \<Rightarrow> bool" where
  "keeps_slot fakeSpaces char =
     (\<not> (case slot_text char of None \<Rightarrow> False | Some s \<Rightarrow> s \<in> set notAllowedChars)
      \<and> \<not> isFakeChar char fakeSpaces)"

definition kept_slots :: "pdfminerTextline \<Rightarrow> pdfminerText list" where
  "kept_slots line = filter (keeps_slot (thereAreFakeSpaces line)) (line_text line)"

text \<open>
  The function mapped over the slots that are left. A slot with content and no
  attributes makes the source read a field of \<open>undefined\<close>.
\<close>

definition toCharacter :: "real \<Rightarrow> real \<Rightarrow> pdfminerText \<Rightarrow> error + character option" where
  "toCharacter pageHeight scalingFactor char =
     (case slot_text char of
        None \<Rightarrow> Inr None
      | Some s \<Rightarrow>
          (case slot_attr char of
             None \<Rightarrow> Inl TypeError
           | Some a \<Rightarrow>
               Inr (Some
                 \<lparr>cbox = getBoundingBox (a_bbox a) pageHeight scalingFactor,
                  ccontent = getValidCharacter s,
                  cfont = \<lparr>name = a_font a, fsize = a_size a,
                           weight = (if test_ci ''bold'' (a_font a) then Bold else Medium),
                           isItalic = (if test_ci ''italic'' (a_font a) then True else False),
                           isUnderline = (if test_ci ''underline'' (a_font a) then True else False),
                           color = a_colour a\<rparr>\<rparr>)))"

definition mkWord :: "character list \<Rightarrow> word" where
  "mkWord charSelection =
     \<lparr>wbox = merge (map cbox charSelection), wcontent = charSelection,
      wfont = getMostCommonFont (map cfont charSelection), properties = Map.empty\<rparr>"

definition defined :: "'a option list \<Rightarrow> 'a list" where
  "defined cs = List.map_filter (\<lambda>c. c) cs"

definition slice :: "nat \<Rightarrow> nat \<Rightarrow> 'a list \<Rightarrow> 'a list" where
  "slice from to xs = take (to - from) (drop from xs)"

definition is_separator :: "string \<Rightarrow> character option \<Rightarrow> bool" where
  "is_separator wordSeparator c =
     (case c of None \<Rightarrow> True | Some ch \<Rightarrow> ccontent ch = wordSeparator)"

definition trim_first :: "string \<Rightarrow> character option list \<Rightarrow> character option list" where
  "trim_first wordSeparator chars =
     (case chars of [] \<Rightarrow> [] | c # cs \<Rightarrow> if is_separator wordSeparator c then cs else chars)"

definition trim_last :: "string \<Rightarrow> character option list \<Rightarrow> character option list" where
  "trim_last wordSeparator chars =
     (if chars = [] then []
      else if is_separator wordSeparator (last chars) then butlast chars else chars)"

definition sepLocs_of :: "character option list \<Rightarrow> nat list" where
  "sepLocs_of chars =
     filter (\<lambda>l. l \<noteq> length chars)
       (filter (\<lambda>l. l \<noteq> 0) (filter (\<lambda>i. chars ! i = None) [0 ..< length chars]))"

text \<open>The part of \<open>breakLineIntoWords\<close> after the characters are built.\<close>

definition words_of :: "string \<Rightarrow> character option list \<Rightarrow> word list" where
  "words_of wordSeparator chars0 =
     (let chars = trim_last wordSeparator (trim_first wordSeparator chars0) in
      if length chars = 0 \<or> (length chars = 1 \<and> chars ! 0 = None) then []
      else
        (let sepLocs = sepLocs_of chars in
         if length sepLocs = 0 then [mkWord (defined chars)]
         else
           (let charSelection = defined (slice 0 (sepLocs ! 0) chars)
            in if length charSelection > 0 then [mkWord charSelection] else [])
           @ concat (map (\<lambda>i.
               (let from = sepLocs ! i + 1;
                    to = (if i \<noteq> length sepLocs - 1 then sepLocs ! (i + 1) else length chars);
                    charSelection = defined (slice from to chars)
                in if length charSelection > 0 then [mkWord charSelection] else []))
             [0 ..< length sepLocs])))"

definition breakLineIntoWords ::
  "pdfminerTextline \<Rightarrow> string \<Rightarrow> real \<Rightarrow> real \<Rightarrow> error + word list" where
  "breakLineIntoWords line wordSeparator pageHeight scalingFactor =
     (case traverse (toCharacter pageHeight scalingFactor) (kept_slots line) of
        Inl e \<Rightarrow> Inl e
      | Inr chars \<Rightarrow> Inr (words_of wordSeparator chars))"

subsection \<open>Pages and the run of the backend\<close>

text \<open>
  \<open>Promise.all\<close>: rejected as soon as one promise is, fulfilled when all are. Of several
  rejections the model reports the first in the list.
\<close>

fun promise_all :: "'a promise list \<Rightarrow> 'a list promise" where
  "promise_all [] = Fulfilled []"
| "promise_all (p # ps) =
     (case p of
        Rejected e \<Rightarrow> Rejected e
      | Fulfilled v \<Rightarrow>
          (case promise_all ps of
             Fulfilled vs \<Rightarrow> Fulfilled (v # vs) | Rejected e \<Rightarrow> Rejected e | Pending \<Rightarrow> Pending)
      | Pending \<Rightarrow>
          (case promise_all ps of
             Rejected e \<Rightarrow> Rejected e | _ \<Rightarrow> Pending))"

text \<open>
  Modelled from the spec: \<open>Document.getAllElements\<close> is not among the sources; the
  elements of the pages, flattened.
\<close>

definition getAllElements :: "document \<Rightarrow> element list" where
  "getAllElements doc = concat (map elements (pages doc))"

text \<open>The paragraphs of a page: every line's words are appended to \<open>elements\<close>.\<close>

fun treat_lines :: "real \<Rightarrow> element list \<Rightarrow> pdfminerTextline list \<Rightarrow> error + element list" where
  "treat_lines pageHeight elems [] = Inr elems"
| "treat_lines pageHeight elems (line # ls) =
     (case breakLineIntoWords line '','' pageHeight 1 of
        Inl e \<Rightarrow> Inl e
      | Inr ws \<Rightarrow> treat_lines pageHeight (elems @ map EWord ws) ls)"

text \<open>
  One round of \<open>pageObj.figure.forEach\<close>, on the pair of \<open>elements\<close> and
  \<open>imgOCRPromises\<close>. \<open>run\<close> is \<open>orchestrator.run\<close>, the nested extraction of an image file.
  The source calls \<open>imgOCRPromises.concat(...)\<close> as a statement: \<open>concat\<close> builds a new
  array and leaves its receiver as it is, and the new array is dropped.
\<close>

definition treat_figure ::
  "(string \<Rightarrow> document promise) \<Rightarrow> string \<Rightarrow> real
    \<Rightarrow> element list \<times> document promise list \<Rightarrow> pdfminerFigure
    \<Rightarrow> element list \<times> document promise list" where
  "treat_figure run imagsLocation pageHeight st fig =
     (case st of (elems, imgOCRPromises) \<Rightarrow>
        (let newImageElements = interpretImages fig imagsLocation pageHeight 1;
             elems' = elems @ map EImage newImageElements;
             dropped = imgOCRPromises @ map (\<lambda>imgElement. run (src imgElement)) newImageElements
         in (elems', imgOCRPromises)))"

definition getPage ::
  "(string \<Rightarrow> document promise) \<Rightarrow> pdfminerPage \<Rightarrow> string \<Rightarrow> page promise" where
  "getPage run pageObj imagsLocation =
     (case page_bbox pageObj of (b0, b1, b2, b3) \<Rightarrow>
        (let pageBBox = \<lparr>bleft = b0, btop = b1, bwidth = b2, bheight = b3\<rparr> in
         case (case textbox pageObj of
                 None \<Rightarrow> Inr []
               | Some paras \<Rightarrow> treat_lines (bheight pageBBox) [] (concat (map textline paras))) of
           Inl e \<Rightarrow> Rejected e
         | Inr elems \<Rightarrow>
             (case (case figure pageObj of
                      None \<Rightarrow> (elems, [])
                    | Some figs \<Rightarrow>
                        foldl (treat_figure run imagsLocation (bheight pageBBox)) (elems, []) figs) of
                (elems', imgOCRPromises) \<Rightarrow>
                  (case promise_all imgOCRPromises of
                     Fulfilled docs \<Rightarrow>
                       Fulfilled \<lparr>pageNumber = page_id pageObj,
                                  elements = elems' @ concat (map getAllElements docs),
                                  pbox = pageBBox\<rparr>
                   | Rejected e \<Rightarrow> Rejected e
                   | Pending \<Rightarrow> Pending))))"

text \<open>
  What the environment does in one call of \<open>execute\<close>: where \<open>pdf2txt\<close> was found (if at
  all), the exit code the \<open>close\<close> event reports (\<open>None\<close> for \<open>null\<close>, a process ended by a
  signal), and what \<open>parseXmlToObject\<close> makes of the file written: a rejection, or an
  object whose \<open>pages.page\<close> is an array of pages or is missing.
\<close>

record extraction =
  pdf2txtLocation :: "string option"
  exit_code :: "int option"
  parsed_xml :: "error + pdfminerPage list option"
  imgsLocation :: string

text \<open>
  The handler of \<open>close\<close>. The rejection of \<open>parseXmlToObject(xml)\<close>, and an exception
  inside the function given to \<open>then\<close>, are those of a promise nobody waits for: the
  \<open>try\<close> around the call has ended by then, and neither \<open>resolveDocument\<close> nor
  \<open>rejectDocument\<close> is called.
\<close>

definition on_close ::
  "(string \<Rightarrow> document promise) \<Rightarrow> string \<Rightarrow> extraction \<Rightarrow> document promise" where
  "on_close run pdfInputFile env =
     (if exit_code env = Some 0 then
        (case parsed_xml env of
           Inl err \<Rightarrow> Pending
         | Inr None \<Rightarrow> Pending
         | Inr (Some pageObjs) \<Rightarrow>
             (case promise_all (map (\<lambda>pageObj. getPage run pageObj (imgsLocation env)) pageObjs) of
                Fulfilled ps \<Rightarrow> Fulfilled \<lparr>pages = ps, inputFile = pdfInputFile\<rparr>
              | Rejected e \<Rightarrow> Pending
              | Pending \<Rightarrow> Pending))
      else Rejected (ReturnCode (exit_code env)))"

text \<open>
  \<open>execute\<close>: without a location \<open>spawn\<close> throws inside the function given to
  \<open>repairPdf(...).then\<close>, so the promise of the document is never settled; otherwise the
  process runs and its \<open>close\<close> event decides.
\<close>

definition execute ::
  "(string \<Rightarrow> document promise) \<Rightarrow> string \<Rightarrow> extraction \<Rightarrow> document promise" where
  "execute run pdfInputFile env =
     (case pdf2txtLocation env of
        None \<Rightarrow> Pending
      | Some loc \<Rightarrow> on_close run pdfInputFile env)"

subsection \<open>Notions used to state the properties of line reconstruction\<close>

text \<open>The two kinds of empty slot, and a slot whose content is a character not allowed.\<close>

definition empty_no_attr :: "pdfminerText \<Rightarrow> bool" where
  "empty_no_attr w = (slot_text w = None \<and> slot_attr w = None)"

definition empty_with_attr :: "pdfminerText \<Rightarrow> bool" where
  "empty_with_attr w = (slot_text w = None \<and> slot_attr w \<noteq> None)"

definition not_allowed :: "pdfminerText \<Rightarrow> bool" where
  "not_allowed w = (case slot_text w of None \<Rightarrow> False | Some s \<Rightarrow> s \<in> set notAllowedChars)"

text \<open>
  How often a font occurs among the fonts of a word's characters, and the position of
  its first occurrence, both by \<open>isEqual\<close>.
\<close>

definition occurrences :: "font \<Rightarrow> font list \<Rightarrow> nat" where
  "occurrences f fs = length (filter (isEqual f) fs)"

definition first_pos :: "font \<Rightarrow> font list \<Rightarrow> nat" where
  "first_pos f fs = length (takeWhile (\<lambda>g. \<not> isEqual f g) fs)"

text \<open>The distinct members of a list, in the order of their first occurrences.\<close>

definition firsts :: "'a list \<Rightarrow> 'a list" where
  "firsts xs = rev (remdups (rev xs))"

subsection \<open>Sample input\<close>

definition attr0 :: textAttr where
  "attr0 = \<lparr>a_font = ''Arial-BoldMT'', a_size = 10, a_bbox = (0, 700, 5, 710),
     a_colour = ''#000000''\<rparr>"

definition glyph :: "string \<Rightarrow> pdfminerText" where
  "glyph s = \<lparr>slot_text = Some s, slot_attr = Some attr0\<rparr>"

definition gap :: pdfminerText where
  "gap = \<lparr>slot_text = None, slot_attr = None\<rparr>"

definition space :: pdfminerText where
  "space = \<lparr>slot_text = None, slot_attr = Some attr0\<rparr>"

text \<open>
  A line with a fake space in front (an empty slot without attributes followed by an
  empty slot with attributes) and an empty slot without attributes between two letters.
\<close>

definition ex_line :: pdfminerTextline where
  "ex_line = \<lparr>line_text = [gap, space, glyph ''a'', gap, glyph ''b'']\<rparr>"

definition arial :: font where
  "arial = \<lparr>name = ''Arial'', fsize = 10, weight = Medium, isItalic = False,
     isUnderline = False, color = ''#000000''\<rparr>"

definition times_bold :: font where
  "times_bold = \<lparr>name = ''Times-Bold'', fsize = 12, weight = Bold, isItalic = False,
     isUnderline = False, color = ''#000000''\<rparr>"

text \<open>
  A page with one line of text and one figure holding one image; a nested extraction
  that resolves, for every image file, to a document of two words; and three runs of the
  extraction tool.
\<close>

definition ocr_word :: "string \<Rightarrow> word" where
  "ocr_word s =
     \<lparr>wbox = \<lparr>bleft = 0, btop = 0, bwidth = 10, bheight = 10\<rparr>,
      wcontent = map (\<lambda>c. \<lparr>cbox = \<lparr>bleft = 0, btop = 0, bwidth = 10, bheight = 10\<rparr>,
                           ccontent = [c], cfont = arial\<rparr>) s,
      wfont = arial, properties = Map.empty\<rparr>"

definition ocr_doc :: document where
  "ocr_doc =
     \<lparr>pages = [\<lparr>pageNumber = 1,
                 elements = [EWord (ocr_word ''Hello''), EWord (ocr_word ''World'')],
                 pbox = \<lparr>bleft = 0, btop = 0, bwidth = 100, bheight = 50\<rparr>\<rparr>],
      inputFile = ''/tmp/imgs/img0.png''\<rparr>"

definition ocr_run :: "string \<Rightarrow> document promise" where
  "ocr_run file = Fulfilled ocr_doc"

definition fig_page :: pdfminerPage where
  "fig_page =
     \<lparr>page_id = 1, page_bbox = (0, 0, 595, 842),
      textbox = Some [\<lparr>textline = [\<lparr>line_text = [glyph ''a'']\<rparr>]\<rparr>],
      figure = Some [\<lparr>fig_bbox = (10, 10, 110, 60), fig_image = [\<lparr>img_src = ''img0.png''\<rparr>]\<rparr>]\<rparr>"

definition env_bad_xml :: extraction where
  "env_bad_xml = \<lparr>pdf2txtLocation = Some ''/usr/bin/pdf2txt.py'', exit_code = Some 0,
     parsed_xml = Inl ParseXmlFailed, imgsLocation = ''/tmp/imgs''\<rparr>"

definition env_ok :: extraction where
  "env_ok = \<lparr>pdf2txtLocation = Some ''/usr/bin/pdf2txt.py'', exit_code = Some 0,
     parsed_xml = Inr (Some [fig_page]), imgsLocation = ''/tmp/imgs''\<rparr>"

definition env_exit1 :: extraction where
  "env_exit1 = \<lparr>pdf2txtLocation = Some ''/usr/bin/pdf2txt.py'', exit_code = Some 1,
     parsed_xml = Inr (Some [fig_page]), imgsLocation = ''/tmp/imgs''\<rparr>"

section \<open>The link detection module\<close>

text \<open>\<^verbatim>\<open>processing/LinkDetectionModule/LinkDetectionModule.ts\<close>.\<close>

subsection \<open>Regular expressions\<close>

text \<open>
  The two patterns of \<open>matchTextualLinks\<close> use character classes, sequence,
  alternative, repetition (also bounded), the anchors \<open>^\<close> and \<open>$\<close> and one word
  boundary \<open>\b\<close>; no back reference and no look-ahead. For such a pattern
  \<open>text.match(re)\<close> finds a match iff some stretch of the text belongs to the language
  of the pattern, at a place the anchors allow. The language is decided by derivatives.
  Characters are bytes, so \<open>\w\<close>, \<open>\d\<close> and \<open>\s\<close> are their ASCII parts; the white space
  beyond ASCII that \<open>\s\<close> also takes (U+00A0, U+FEFF, the Unicode space separators) is
  outside the model.
\<close>

datatype cclass = CChar char | CRange char char | CWord | CSpace | CDigit

definition is_digit :: "char \<Rightarrow> bool" where
  "is_digit c = (48 \<le> (of_char c :: nat) \<and> (of_char c :: nat) \<le> 57)"

definition is_word_char :: "char \<Rightarrow> bool" where
  "is_word_char c = (is_upper c \<or> is_lower c \<or> is_digit c \<or> c = CHR ''_'')"

definition is_space_char :: "char \<Rightarrow> bool" where
  "is_space_char c = ((of_char c :: nat) \<in> set [9, 10, 11, 12, 13, 32])"

fun in_cclass :: "char \<Rightarrow> cclass \<Rightarrow> bool" where
  "in_cclass c (CChar d) = (c = d)"
| "in_cclass c (CRange a b) = ((of_char a :: nat) \<le> of_char c \<and> (of_char c :: nat) \<le> of_char b)"
| "in_cclass c CWord = is_word_char c"
| "in_cclass c CSpace = is_space_char c"
| "in_cclass c CDigit = is_digit c"

text \<open>\<open>Atom neg cs\<close> is the class \<open>[...]\<close> of the members \<open>cs\<close>, negated (\<open>[^...]\<close>) if \<open>neg\<close>.\<close>

datatype rexp =
    Zero
  | One
  | Atom bool "cclass list"
  | Seq rexp rexp
  | Alt rexp rexp
  | Star rexp
  | Rep rexp nat nat

definition in_class :: "bool \<Rightarrow> cclass list \<Rightarrow> char \<Rightarrow> bool" where
  "in_class neg cs c = (list_ex (in_cclass c) cs \<noteq> neg)"

fun nullable :: "rexp \<Rightarrow> bool" where
  "nullable Zero = False"
| "nullable One = True"
| "nullable (Atom neg cs) = False"
| "nullable (Seq r s) = (nullable r \<and> nullable s)"
| "nullable (Alt r s) = (nullable r \<or> nullable s)"
| "nullable (Star r) = True"
| "nullable (Rep r m n) = (m = 0 \<or> nullable r)"

fun seq :: "rexp \<Rightarrow> rexp \<Rightarrow> rexp" where
  "seq Zero s = Zero"
| "seq r Zero = Zero"
| "seq One s = s"
| "seq r s = Seq r s"

fun alt :: "rexp \<Rightarrow> rexp \<Rightarrow> rexp" where
  "alt Zero s = s"
| "alt r Zero = r"
| "alt r s = Alt r s"

fun deriv :: "char \<Rightarrow> rexp \<Rightarrow> rexp" where
  "deriv c Zero = Zero"
| "deriv c One = Zero"
| "deriv c (Atom neg cs) = (if in_class neg cs c then One else Zero)"
| "deriv c (Seq r s) =
     (if nullable r then alt (seq (deriv c r) s) (deriv c s) else seq (deriv c r) s)"
| "deriv c (Alt r s) = alt (deriv c r) (deriv c s)"
| "deriv c (Star r) = seq (deriv c r) (Star r)"
| "deriv c (Rep r m n) = (if n = 0 then Zero else seq (deriv c r) (Rep r (m - 1) (n - 1)))"

text \<open>The whole text, a start of the text, an end of the text belongs to the language.\<close>

fun accepts :: "rexp \<Rightarrow> string \<Rightarrow> bool" where
  "accepts r [] = nullable r"
| "accepts r (c # cs) = accepts (deriv c r) cs"

fun accepts_prefix :: "rexp \<Rightarrow> string \<Rightarrow> bool" where
  "accepts_prefix r [] = nullable r"
| "accepts_prefix r (c # cs) = (nullable r \<or> accepts_prefix (deriv c r) cs)"

fun accepts_suffix :: "rexp \<Rightarrow> string \<Rightarrow> bool" where
  "accepts_suffix r [] = nullable r"
| "accepts_suffix r (c # cs) = (accepts r (c # cs) \<or> accepts_suffix r cs)"

text \<open>
  A pattern \<open>\b r\<close> without further anchors: some stretch that starts at a word boundary
  belongs to the language of \<open>r\<close>. \<open>prev\<close> tells whether the character before is a word
  character (there is none before the first).
\<close>

fun search_at_boundary :: "rexp \<Rightarrow> bool \<Rightarrow> string \<Rightarrow> bool" where
  "search_at_boundary r prev [] = (prev \<and> nullable r)"
| "search_at_boundary r prev (c # cs) =
     ((prev \<noteq> is_word_char c \<and> accepts_prefix r (c # cs))
      \<or> search_at_boundary r (is_word_char c) cs)"

definition lit :: "string \<Rightarrow> rexp" where
  "lit s = foldr (\<lambda>c r. Seq (Atom False [CChar c]) r) s One"

definition seqs :: "rexp list \<Rightarrow> rexp" where
  "seqs rs = foldr Seq rs One"

definition alts :: "rexp list \<Rightarrow> rexp" where
  "alts rs = foldr Alt rs Zero"

definition plus1 :: "rexp \<Rightarrow> rexp" where
  "plus1 r = Seq r (Star r)"

definition opt :: "rexp \<Rightarrow> rexp" where
  "opt r = Alt r One"

text \<open>
  \<^verbatim>\<open>/\b((http|https):\/\/?)[^\s()<>]+(?:\([\w\d]+\)|([^[:punct:]\s]|\/?))/\<close>, after the
  \<open>\b\<close>. In \<^verbatim>\<open>[^[:punct:]\s]\<close> the class ends at the first \<open>]\<close>: it is the class of all
  characters but \<open>[ : p u n c t\<close>, followed by \<open>\s\<close> and a literal \<open>]\<close>.
\<close>

definition linkRegexp :: rexp where
  "linkRegexp =
     seqs [Alt (lit ''http'') (lit ''https''), lit '':/'', opt (lit ''/''),
           plus1 (Atom True [CSpace, CChar CHR ''('', CChar CHR '')'', CChar CHR ''<'',
                             CChar CHR ''>'']),
           Alt (seqs [lit ''('', plus1 (Atom False [CWord, CDigit]), lit '')''])
               (Alt (seqs [Atom True [CChar CHR ''['', CChar CHR '':'', CChar CHR ''p'',
                                      CChar CHR ''u'', CChar CHR ''n'', CChar CHR ''c'',
                                      CChar CHR ''t'', CChar CHR '':''],
                           Atom False [CSpace], lit '']''])
                    (opt (lit ''/'')))]"

text \<open>
  The mail pattern is an alternative of two: \<^verbatim>\<open>^(local)(@domain$)\<close>, which the whole
  text must match, and \<^verbatim>\<open>(@\[?ip\]?$)\<close>, which an end of the text must match.
  \<^verbatim>\<open>[\w-\s]\<close> is the class of \<open>\w\<close>, \<open>-\<close> and \<open>\s\<close>.
\<close>

definition quoted_part :: rexp where
  "quoted_part = seqs [lit ''\"'', plus1 (Atom False [CWord, CChar CHR ''-'', CSpace]), lit ''\"'']"

definition dotted_part :: rexp where
  "dotted_part =
     Seq (plus1 (Atom False [CWord, CChar CHR ''-'']))
         (Star (Seq (lit ''.'') (plus1 (Atom False [CWord, CChar CHR ''-'']))))"

definition mail_named :: rexp where
  "mail_named =
     seqs [alts [quoted_part, dotted_part, Seq quoted_part dotted_part],
           lit ''@'',
           Star (Seq (plus1 (Atom False [CWord, CChar CHR ''-''])) (lit ''.'')),
           Atom False [CWord], Rep (Atom False [CWord, CChar CHR ''-'']) 0 66,
           lit ''.'',
           Rep (Atom False [CRange CHR ''a'' CHR ''z'']) 2 6,
           opt (Seq (lit ''.'') (Rep (Atom False [CRange CHR ''a'' CHR ''z'']) 2 2))]"

definition octet :: "rexp \<Rightarrow> rexp" where
  "octet tail =
     alts [seqs [lit ''25'', Atom False [CRange CHR ''0'' CHR ''5''], tail],
           seqs [lit ''2'', Atom False [CRange CHR ''0'' CHR ''4''],
                 Atom False [CRange CHR ''0'' CHR ''9''], tail],
           seqs [lit ''1'', Rep (Atom False [CRange CHR ''0'' CHR ''9'']) 2 2, tail],
           seqs [Rep (Atom False [CRange CHR ''0'' CHR ''9'']) 1 2, tail]]"

definition mail_numeric :: rexp where
  "mail_numeric =
     seqs [lit ''@'', opt (lit ''[''), octet (lit ''.''),
           Rep (Seq (octet One) (lit ''.'')) 2 2, octet One, opt (lit '']'')]"

definition matches_link :: "string \<Rightarrow> bool" where
  "matches_link s = search_at_boundary linkRegexp False s"

definition matches_mail :: "string \<Rightarrow> bool" where
  "matches_mail s = (accepts mail_named s \<or> accepts_suffix mail_numeric s)"
subsection \<open>The object graph written by dumppdf\<close>

text \<open>
  \<open>getFileMetadata\<close> resolves to what \<open>xml2js\<close> makes of the XML of \<open>dumppdf\<close>: every
  element is an object whose fields are the arrays of its children of one tag. The
  types keep the fields the code reads; \<open>None\<close> is a field that is \<open>undefined\<close>. A field
  that \<open>xml2js\<close> fills with a one-element array (\<open>list\<close>, \<open>dict\<close>, \<open>string\<close>) is kept as
  that element, \<open>v_string\<close> as the text of the element. Numbers are kept as read; a
  number missing from a list is \<open>None\<close>, and so is the result of arithmetic on it (the
  source computes \<open>NaN\<close>).
\<close>

datatype pdflist = PdfList (l_number: "real list option") (l_ref: "string list option")

datatype pdfvalue =
    PdfValue (v_literal: "string list option") (v_list: "pdflist option")
      (v_ref: "string list option") (v_dict: "pdfdict option") (v_string: "string option")
and pdfdict =
    PdfDict (d_key: "string list option") (d_value: "pdfvalue list option")

record pdfobject =
  obj_id :: string
  obj_dict :: "pdfdict option"
  obj_list :: "pdflist option"

record linkBox =
  box_l :: "real option"
  box_t :: "real option"
  box_w :: "real option"
  box_h :: "real option"

record linkAction =
  target :: string
  action_type :: string

record annotation =
  a_box :: linkBox
  a_link :: linkAction
  a_page :: int

text \<open>Reading a field of \<open>undefined\<close> throws; an array read outside its bounds is \<open>undefined\<close>.\<close>

definition need :: "'a option \<Rightarrow> error + 'a" where
  "need x = (case x of None \<Rightarrow> Inl TypeError | Some v \<Rightarrow> Inr v)"

definition bind_err :: "error + 'a \<Rightarrow> ('a \<Rightarrow> error + 'b) \<Rightarrow> error + 'b" where
  "bind_err m f = (case m of Inl e \<Rightarrow> Inl e | Inr v \<Rightarrow> f v)"

fun index_of :: "'a \<Rightarrow> 'a list \<Rightarrow> nat option" where
  "index_of x [] = None"
| "index_of x (y # ys) =
     (if y = x then Some 0 else (case index_of x ys of None \<Rightarrow> None | Some i \<Rightarrow> Some (Suc i)))"

definition at_index :: "'a list \<Rightarrow> nat option \<Rightarrow> 'a option" where
  "at_index xs i = (case i of None \<Rightarrow> None | Some n \<Rightarrow> if n < length xs then Some (xs ! n) else None)"

definition num_sub :: "real option \<Rightarrow> real option \<Rightarrow> real option" where
  "num_sub a b = (case a of None \<Rightarrow> None | Some x \<Rightarrow> (case b of None \<Rightarrow> None | Some y \<Rightarrow> Some (x - y)))"

text \<open>\<open>xs.filter(p)\<close> where \<open>p\<close> may throw.\<close>

fun filter_err :: "('a \<Rightarrow> error + bool) \<Rightarrow> 'a list \<Rightarrow> error + 'a list" where
  "filter_err p [] = Inr []"
| "filter_err p (x # xs) =
     (case p x of
        Inl e \<Rightarrow> Inl e
      | Inr b \<Rightarrow> (case filter_err p xs of Inl e \<Rightarrow> Inl e | Inr ys \<Rightarrow> Inr (if b then x # ys else ys)))"

text \<open>\<open>dict[0].value[dict[0].key.indexOf(k)]\<close> and the fields read from it.\<close>

definition value_of :: "pdfdict \<Rightarrow> string \<Rightarrow> error + pdfvalue" where
  "value_of d k =
     bind_err (need (d_key d)) (\<lambda>keys.
     bind_err (need (d_value d)) (\<lambda>vals.
     need (at_index vals (index_of k keys))))"

definition numbers_of :: "pdfvalue \<Rightarrow> error + real list" where
  "numbers_of v = bind_err (need (v_list v)) (\<lambda>l. need (l_number l))"

subsection \<open>Dereferencing the annotations\<close>

text \<open>
  \<open>deepSearchObjectsWithIds\<close> calls itself for every reference that leads to a list.
  \<open>stack\<close> is the number of nested calls the engine has room for: a call beyond it
  raises \<open>RangeError\<close> (the stack of calls is exceeded), which is how a search that
  would never end ends in the source.
\<close>

definition find_object :: "pdfobject list \<Rightarrow> string \<Rightarrow> pdfobject option" where
  "find_object objects ident = List.find (\<lambda>ob. obj_id ob = ident) objects"

fun deepSearchObjectsWithIds :: "nat \<Rightarrow> pdfobject list \<Rightarrow> string list \<Rightarrow> error + pdfobject list" where
  "deepSearchObjectsWithIds 0 objects ids = Inl RangeError"
| "deepSearchObjectsWithIds (Suc stack) objects ids =
     (case traverse (\<lambda>ident.
             bind_err (need (find_object objects ident)) (\<lambda>obj.
               (case obj_dict obj of
                  Some d \<Rightarrow> Inr [obj]
                | None \<Rightarrow>
                    bind_err (need (obj_list obj)) (\<lambda>l.
                    bind_err (need (l_ref l)) (\<lambda>refs.
                    deepSearchObjectsWithIds stack objects refs)))))
           ids of
        Inl e \<Rightarrow> Inl e
      | Inr found \<Rightarrow> Inr (concat found))"

subsection \<open>From the metadata to the annotations\<close>

text \<open>
  \<open>parseAction\<close> reads \<open>string[0]._\<close>, the text of the first \<open>string\<close> child. \<open>v_string\<close> is
  that text where the child is there; a \<open>string\<close> child without any text, for which the
  source yields \<open>undefined\<close> as the target, is outside the model.
\<close>

definition parseAction :: "pdfdict \<Rightarrow> string \<Rightarrow> error + string" where
  "parseAction obj type = bind_err (value_of obj type) (\<lambda>v. need (v_string v))"

text \<open>
  \<open>typeMap[type] || type\<close>: \<open>typeMap\<close> is an object literal, so besides \<open>GoTo\<close> it answers
  to the names it inherits from \<open>Object.prototype\<close>, with a function or an object. None
  of these is one of the keys, which are strings: \<open>findIndex\<close> gives -1 and the read of
  \<open>obj.value[-1].string\<close> throws.
\<close>

definition object_prototype_members :: "string list" where
  "object_prototype_members =
     [''constructor'', ''__defineGetter__'', ''__defineSetter__'', ''hasOwnProperty'',
      ''__lookupGetter__'', ''__lookupSetter__'', ''isPrototypeOf'', ''propertyIsEnumerable'',
      ''toString'', ''valueOf'', ''__proto__'', ''toLocaleString'']"

definition parseLinkByActionType :: "pdfdict \<Rightarrow> error + linkAction" where
  "parseLinkByActionType obj =
     bind_err (value_of obj ''S'') (\<lambda>v.
     bind_err (need (v_literal v)) (\<lambda>lits.
     bind_err (need (at_index lits (Some 0))) (\<lambda>type.
     bind_err (if type = ''GoTo'' then parseAction obj ''D''
               else if type \<in> set object_prototype_members then Inl TypeError
               else parseAction obj type) (\<lambda>tgt.
     Inr \<lparr>target = tgt, action_type = type\<rparr>))))"

text \<open>The function mapped over the annotations of one page.\<close>

definition to_annotation :: "real option \<Rightarrow> int \<Rightarrow> pdfobject \<Rightarrow> error + annotation" where
  "to_annotation pageHeight pageNo annot =
     bind_err (need (obj_dict annot)) (\<lambda>d.
     bind_err (value_of d ''Rect'') (\<lambda>rect.
     bind_err (numbers_of rect) (\<lambda>numbers.
     bind_err (value_of d ''A'') (\<lambda>a.
     bind_err (need (v_dict a)) (\<lambda>action.
     bind_err (parseLinkByActionType action) (\<lambda>lnk.
     Inr \<lparr>a_box = \<lparr>box_l = at_index numbers (Some 0),
                    box_t = num_sub pageHeight (at_index numbers (Some 3)),
                    box_w = num_sub (at_index numbers (Some 2)) (at_index numbers (Some 0)),
                    box_h = num_sub (at_index numbers (Some 3)) (at_index numbers (Some 1))\<rparr>,
          a_link = lnk,
          a_page = pageNo\<rparr>))))))"

text \<open>The two filters that select the page objects with annotations.\<close>

definition is_page_object :: "pdfobject \<Rightarrow> error + bool" where
  "is_page_object ob =
     (case obj_dict ob of
        None \<Rightarrow> Inr False
      | Some d \<Rightarrow>
          bind_err (need (d_value d)) (\<lambda>vals.
          Inr (list_ex (\<lambda>v. case v_literal v of None \<Rightarrow> False | Some lits \<Rightarrow> ''Page'' \<in> set lits)
                 vals)))"

definition has_annots :: "pdfobject \<Rightarrow> error + bool" where
  "has_annots ob =
     (case obj_dict ob of
        None \<Rightarrow> Inr False
      | Some d \<Rightarrow> bind_err (need (d_key d)) (\<lambda>keys. Inr (''Annots'' \<in> set keys)))"

text \<open>The function of \<open>pagesWithAnnots.forEach\<close>: the annotations it pushes, unless it throws.\<close>

definition page_annotations ::
  "nat \<Rightarrow> pdfobject list \<Rightarrow> pdfobject list \<Rightarrow> pdfobject \<Rightarrow> error + annotation list" where
  "page_annotations stack objects pgs pageObject =
     bind_err (need (obj_dict pageObject)) (\<lambda>d.
     bind_err (value_of d ''MediaBox'') (\<lambda>mediaBox.
     bind_err (numbers_of mediaBox) (\<lambda>mediaNumbers.
     bind_err (value_of d ''Annots'') (\<lambda>annotsValue.
     bind_err (case v_list annotsValue of
                 Some l \<Rightarrow> need (l_ref l)
               | None \<Rightarrow> need (v_ref annotsValue)) (\<lambda>annotObjIds.
     bind_err (deepSearchObjectsWithIds stack objects annotObjIds) (\<lambda>pageAnnots.
     traverse
       (to_annotation (at_index mediaNumbers (Some 3))
          (case index_of (obj_id pageObject) (map obj_id pgs) of
             None \<Rightarrow> 0
           | Some i \<Rightarrow> int i + 1))
       pageAnnots))))))"

text \<open>
  \<open>forEach\<close> inside \<open>try\<close>: the annotations of the pages before the first one that throws
  are already in \<open>annots\<close> when the exception is caught.
\<close>

fun gather :: "('a \<Rightarrow> error + 'b list) \<Rightarrow> 'b list \<Rightarrow> 'a list \<Rightarrow> 'b list" where
  "gather f annots [] = annots"
| "gather f annots (p # ps) =
     (case f p of Inl e \<Rightarrow> annots | Inr found \<Rightarrow> gather f (annots @ found) ps)"

text \<open>
  The body of the \<open>try\<close> after \<open>await\<close>, on the object \<open>getFileMetadata\<close> resolved to:
  \<open>None\<close> when it has no \<open>pdf.object\<close> array, so that the first filter throws.
\<close>

definition links_of_metadata :: "nat \<Rightarrow> pdfobject list option \<Rightarrow> annotation list" where
  "links_of_metadata stack metadata =
     (case metadata of
        None \<Rightarrow> []
      | Some objects \<Rightarrow>
          (case filter_err is_page_object objects of
             Inl e \<Rightarrow> []
           | Inr pgs \<Rightarrow>
               (case filter_err has_annots pgs of
                  Inl e \<Rightarrow> []
                | Inr pagesWithAnnots \<Rightarrow>
                    gather (page_annotations stack objects pgs) [] pagesWithAnnots)))"

text \<open>
  What the environment does in one call of \<open>getFileMetadata\<close>: where \<open>dumppdf\<close> was found
  (if at all), what it wrote to its error stream, the code of its \<open>close\<close> event, and what
  \<open>utils.parseXmlToObject\<close> makes of its output (a rejection, or the object parsed).
\<close>

record metadata_run =
  dumppdfLocation :: "string option"
  stderr_data :: "string list"
  md_exit_code :: "int option"
  md_parsed :: "error + pdfobject list option"

text \<open>
  Without a location \<open>spawn\<close> throws inside the executor of the promise, which rejects
  it. Output on the error stream rejects it before the process closes. On code 0 the
  promise is resolved by the function given to \<open>parseXmlToObject(xml).then\<close>; when
  \<open>parseXmlToObject\<close> rejects, that function is not called, and the \<open>try\<close> around the call
  has ended by then, so the promise stays as it is.
\<close>

definition getFileMetadata :: "metadata_run \<Rightarrow> pdfobject list option promise" where
  "getFileMetadata env =
     (case dumppdfLocation env of
        None \<Rightarrow> Rejected SpawnError
      | Some loc \<Rightarrow>
          (case stderr_data env of
             d # ds \<Rightarrow> Rejected (StderrOutput d)
           | [] \<Rightarrow>
               (if md_exit_code env = Some 0 then
                  (case md_parsed env of Inl err \<Rightarrow> Pending | Inr ob \<Rightarrow> Fulfilled ob)
                else Rejected (ReturnCode (md_exit_code env)))))"

definition extractLinksFromMetadata :: "nat \<Rightarrow> metadata_run \<Rightarrow> annotation list promise" where
  "extractLinksFromMetadata stack env =
     (case getFileMetadata env of
        Fulfilled metadata \<Rightarrow> Fulfilled (links_of_metadata stack metadata)
      | Rejected e \<Rightarrow> Fulfilled []
      | Pending \<Rightarrow> Pending)"

subsection \<open>Matching words and links\<close>

text \<open>
  \<open>Word.toString\<close> is not among the sources: the text of a word is taken to be the
  contents of its characters, in order. \<open>BoundingBox.getPercentageOfInclusion\<close> is not
  among them either and is a parameter \<open>incl\<close> of what follows, from the box of an
  annotation and the box of a word to a number, \<open>None\<close> for \<open>NaN\<close>.
\<close>

definition word_toString :: "word \<Rightarrow> string" where
  "word_toString w = concat (map ccontent (wcontent w))"

definition buildLinkMD :: "word \<Rightarrow> annotation \<Rightarrow> string \<times> string" where
  "buildLinkMD w l =
     (let tgt = (if action_type (a_link l) = ''GoTo'' then ''#'' @ target (a_link l)
                 else target (a_link l))
      in (''['' @ word_toString w @ '']('' @ tgt @ '')'', tgt))"

text \<open>\<open>Math.abs(r) > 0.7\<close>, false for \<open>NaN\<close>.\<close>

definition exceeds :: "real option \<Rightarrow> bool" where
  "exceeds r = (case r of None \<Rightarrow> False | Some x \<Rightarrow> \<bar>x\<bar> > 0.7)"

text \<open>One round of \<open>links.forEach\<close> for a word, and the whole loop.\<close>

definition match_link :: "(linkBox \<Rightarrow> boundingBox \<Rightarrow> real option) \<Rightarrow> word \<Rightarrow> annotation \<Rightarrow> word" where
  "match_link incl w l =
     (if exceeds (incl (a_box l) (wbox w)) then
        (case buildLinkMD w l of (mdLink, targetURL) \<Rightarrow>
           w\<lparr>properties := (properties w)(''link'' \<mapsto> mdLink, ''targetURL'' \<mapsto> targetURL)\<rparr>)
      else w)"

definition match_links :: "(linkBox \<Rightarrow> boundingBox \<Rightarrow> real option) \<Rightarrow> annotation list \<Rightarrow> word \<Rightarrow> word" where
  "match_links incl links w = foldl (match_link incl) w links"

definition matchTextualLinks :: "word \<Rightarrow> word" where
  "matchTextualLinks w =
     (if matches_link (word_toString w) then
        w\<lparr>properties := (properties w)
            (''link'' \<mapsto> ''['' @ word_toString w @ '']('' @ word_toString w @ '')'',
             ''targetURL'' \<mapsto> word_toString w)\<rparr>
      else if matches_mail (word_toString w) then
        w\<lparr>properties := (properties w)
            (''link'' \<mapsto> ''['' @ word_toString w @ ''](mailto:'' @ word_toString w @ '')'',
             ''targetURL'' \<mapsto> ''mailto:'' @ word_toString w)\<rparr>
      else w)"

text \<open>\<open>!word.properties.link\<close>: the property is absent, or the empty string.\<close>

definition no_link :: "word \<Rightarrow> bool" where
  "no_link w = (case properties w ''link'' of None \<Rightarrow> True | Some s \<Rightarrow> s = [])"

definition link_word :: "(linkBox \<Rightarrow> boundingBox \<Rightarrow> real option) \<Rightarrow> annotation list \<Rightarrow> word \<Rightarrow> word" where
  "link_word incl links w =
     (let w' = match_links incl links w in if no_link w' then matchTextualLinks w' else w')"

definition link_page :: "(linkBox \<Rightarrow> boundingBox \<Rightarrow> real option) \<Rightarrow> annotation list \<Rightarrow> page \<Rightarrow> page" where
  "link_page incl mdLinks pg =
     (let links = filter (\<lambda>lnk. a_page lnk = pageNumber pg) mdLinks
      in pg\<lparr>elements := map (\<lambda>e. case e of EWord w \<Rightarrow> EWord (link_word incl links w) | EImage i \<Rightarrow> e)
                           (elements pg)\<rparr>)"

text \<open>
  \<open>main\<close>. The index that \<open>main\<close> adds to every link as \<open>id\<close> is not read again and is left
  out. The words of a page are the words among its elements.
\<close>

definition main ::
  "(linkBox \<Rightarrow> boundingBox \<Rightarrow> real option) \<Rightarrow> nat \<Rightarrow> metadata_run \<Rightarrow> document \<Rightarrow> document promise" where
  "main incl stack env doc =
     (case extractLinksFromMetadata stack env of
        Fulfilled mdLinks \<Rightarrow> Fulfilled (doc\<lparr>pages := map (link_page incl mdLinks) (pages doc)\<rparr>)
      | Rejected e \<Rightarrow> Rejected e
      | Pending \<Rightarrow> Pending)"

subsection \<open>Notions used to state the properties of dereferencing\<close>

text \<open>
  The references an id leads on to: those of the list it resolves to, if it resolves to
  an object that is a list of references and not a dictionary.
\<close>

definition refs_of :: "pdfobject list \<Rightarrow> string \<Rightarrow> string list option" where
  "refs_of objects i =
     (case find_object objects i of
        None \<Rightarrow> None
      | Some ob \<Rightarrow>
          (case obj_dict ob of
             Some d \<Rightarrow> None
           | None \<Rightarrow> (case obj_list ob of None \<Rightarrow> None | Some l \<Rightarrow> l_ref l)))"

definition ref_edges :: "pdfobject list \<Rightarrow> (string \<times> string) set" where
  "ref_edges objects = {(i, j). \<exists>rs. refs_of objects i = Some rs \<and> j \<in> set rs}"

definition reachable :: "pdfobject list \<Rightarrow> string list \<Rightarrow> string set" where
  "reachable objects ids = (ref_edges objects)\<^sup>* `` set ids"

text \<open>An id resolves: to a dictionary, or to a list of further references.\<close>

definition resolves :: "pdfobject list \<Rightarrow> string \<Rightarrow> bool" where
  "resolves objects i =
     (\<exists>ob. find_object objects i = Some ob
           \<and> (obj_dict ob \<noteq> None \<or> (\<exists>l rs. obj_list ob = Some l \<and> l_ref l = Some rs)))"

text \<open>
  The dictionaries reached from a list of references, in depth-first order: a
  reference to a dictionary gives the dictionary, a reference to a list gives what its
  references give, and the references of a list are followed from left to right.
\<close>

inductive dfs :: "pdfobject list \<Rightarrow> string list \<Rightarrow> pdfobject list \<Rightarrow> bool"
  for objects :: "pdfobject list" where
  dfs_Nil: "dfs objects [] []"
| dfs_dict: "find_object objects i = Some ob \<Longrightarrow> obj_dict ob \<noteq> None \<Longrightarrow> dfs objects is ds
     \<Longrightarrow> dfs objects (i # is) (ob # ds)"
| dfs_list: "refs_of objects i = Some rs \<Longrightarrow> dfs objects rs ds1 \<Longrightarrow> dfs objects is ds2
     \<Longrightarrow> dfs objects (i # is) (ds1 @ ds2)"

text \<open>What \<open>deepSearchObjectsWithIds\<close> does with one reference, given \<open>stack\<close> further calls.\<close>

definition deref_one :: "nat \<Rightarrow> pdfobject list \<Rightarrow> string \<Rightarrow> error + pdfobject list" where
  "deref_one stack objects ident =
     bind_err (need (find_object objects ident)) (\<lambda>obj.
       (case obj_dict obj of
          Some d \<Rightarrow> Inr [obj]
        | None \<Rightarrow>
            bind_err (need (obj_list obj)) (\<lambda>l.
            bind_err (need (l_ref l)) (\<lambda>refs.
            deepSearchObjectsWithIds stack objects refs))))"

text \<open>
  A graph of five objects: the list 5 refers to the dictionary 7 and the list 8, which
  refers to the dictionary 9; 6 is a dictionary.
\<close>

definition dict_object :: "string \<Rightarrow> pdfobject" where
  "dict_object i = \<lparr>obj_id = i, obj_dict = Some (PdfDict None None), obj_list = None\<rparr>"

definition list_object :: "string \<Rightarrow> string list \<Rightarrow> pdfobject" where
  "list_object i rs = \<lparr>obj_id = i, obj_dict = None, obj_list = Some (PdfList None (Some rs))\<rparr>"

definition ex_objects :: "pdfobject list" where
  "ex_objects = [list_object ''5'' [''7'', ''8''], dict_object ''6'', dict_object ''7'',
                 list_object ''8'' [''9''], dict_object ''9'']"

text \<open>
  The dictionaries found at the ids reached, and the statement proved of a list of
  references and of one reference: from some number of calls on the result is the same
  list, which is the depth-first list and holds exactly the dictionaries reached.
\<close>

definition dicts_from :: "pdfobject list \<Rightarrow> string list \<Rightarrow> pdfobject set" where
  "dicts_from objects ids =
     {ob. \<exists>i \<in> reachable objects ids. find_object objects i = Some ob \<and> obj_dict ob \<noteq> None}"

definition settles :: "pdfobject list \<Rightarrow> string list \<Rightarrow> bool" where
  "settles objects ids =
     (\<exists>ds n. (\<forall>stack \<ge> n. deepSearchObjectsWithIds stack objects ids = Inr ds)
        \<and> dfs objects ids ds \<and> set ds = dicts_from objects ids)"

definition settles_one :: "pdfobject list \<Rightarrow> string \<Rightarrow> bool" where
  "settles_one objects i =
     (\<exists>ds n. (\<forall>stack \<ge> n. deref_one stack objects i = Inr ds)
        \<and> dfs objects [i] ds \<and> set ds = dicts_from objects [i])"

subsection \<open>Notions used to state the properties of link detection\<close>

text \<open>The overlap ratio of an annotation with a word exceeds 0.7.\<close>

definition ratio_exceeds ::
  "(linkBox \<Rightarrow> boundingBox \<Rightarrow> real option) \<Rightarrow> word \<Rightarrow> annotation \<Rightarrow> bool" where
  "ratio_exceeds incl w l =
     (case incl (a_box l) (wbox w) of None \<Rightarrow> False | Some x \<Rightarrow> x > 0.7)"

text \<open>
  Modelled from the spec: \<open>BoundingBox.getPercentageOfInclusion\<close> is not among the
  sources. The spec has \<open>overlapRatio(a, b) = area(intersection(a, b)) / area(a)\<close>; it
  is not a number when a coordinate of \<open>a\<close> is none or the area of \<open>a\<close> is 0. It is used
  for sample runs only.
\<close>

definition overlap_ratio :: "linkBox \<Rightarrow> boundingBox \<Rightarrow> real option" where
  "overlap_ratio a b =
     (case (box_l a, box_t a, box_w a, box_h a) of
        (Some l, Some t, Some w, Some h) \<Rightarrow>
          (let iw = max 0 (min (l + w) (bleft b + bwidth b) - max l (bleft b));
               ih = max 0 (min (t + h) (btop b + bheight b) - max t (btop b))
           in if w * h = 0 then None else Some ((iw * ih) / (w * h)))
      | _ \<Rightarrow> None)"

text \<open>The word with the link of an annotation: what one round of the loop makes of a match.\<close>

definition with_link :: "word \<Rightarrow> annotation \<Rightarrow> word" where
  "with_link w l =
     w\<lparr>properties := (properties w)
          (''link'' \<mapsto> fst (buildLinkMD w l), ''targetURL'' \<mapsto> snd (buildLinkMD w l))\<rparr>"

subsection \<open>Sample metadata and runs of dumppdf\<close>

definition lit_val :: "string \<Rightarrow> pdfvalue" where
  "lit_val s = PdfValue (Some [s]) None None None None"

definition num_list :: "real list \<Rightarrow> pdfvalue" where
  "num_list xs = PdfValue None (Some (PdfList (Some xs) None)) None None None"

definition ref_list :: "string list \<Rightarrow> pdfvalue" where
  "ref_list rs = PdfValue None (Some (PdfList None (Some rs))) None None None"

definition dict_val :: "pdfdict \<Rightarrow> pdfvalue" where
  "dict_val d = PdfValue None None None (Some d) None"

definition str_val :: "string \<Rightarrow> pdfvalue" where
  "str_val s = PdfValue None None None None (Some s)"

definition page_object :: "string \<Rightarrow> string list \<Rightarrow> pdfobject" where
  "page_object i annots =
     \<lparr>obj_id = i,
      obj_dict = Some (PdfDict (Some [''Type'', ''MediaBox'', ''Annots''])
                   (Some [lit_val ''Page'', num_list [0, 0, 595, 842], ref_list annots])),
      obj_list = None\<rparr>"

text \<open>
  A link annotation with the action to open a URI, and an annotation without an action
  (a highlight, say), which makes \<open>annot.dict[0].value[-1].dict\<close> throw.
\<close>

definition uri_annot :: "string \<Rightarrow> real list \<Rightarrow> string \<Rightarrow> pdfobject" where
  "uri_annot i rect uri =
     \<lparr>obj_id = i,
      obj_dict = Some (PdfDict (Some [''Type'', ''Rect'', ''A''])
                   (Some [lit_val ''Annot'', num_list rect,
                          dict_val (PdfDict (Some [''S'', ''URI''])
                                      (Some [lit_val ''URI'', str_val uri]))])),
      obj_list = None\<rparr>"

definition plain_annot :: "string \<Rightarrow> real list \<Rightarrow> pdfobject" where
  "plain_annot i rect =
     \<lparr>obj_id = i,
      obj_dict = Some (PdfDict (Some [''Type'', ''Rect''])
                   (Some [lit_val ''Annot'', num_list rect])),
      obj_list = None\<rparr>"

definition md_two_links :: "pdfobject list" where
  "md_two_links =
     [page_object ''1'' [''3'', ''4''],
      uri_annot ''3'' [0, 790, 40, 800] ''https://first.example'',
      uri_annot ''4'' [0, 790, 42, 802] ''https://second.example'']"

definition md_second_page_fails :: "pdfobject list" where
  "md_second_page_fails =
     [page_object ''1'' [''3''], page_object ''2'' [''4''],
      uri_annot ''3'' [0, 790, 40, 800] ''https://first.example'',
      plain_annot ''4'' [0, 790, 40, 800]]"

definition md_no_tool :: metadata_run where
  "md_no_tool = \<lparr>dumppdfLocation = None, stderr_data = [], md_exit_code = None,
     md_parsed = Inr None\<rparr>"

definition md_exit1 :: metadata_run where
  "md_exit1 = \<lparr>dumppdfLocation = Some ''/usr/bin/dumppdf.py'', stderr_data = [],
     md_exit_code = Some 1, md_parsed = Inr None\<rparr>"

definition md_bad_xml :: metadata_run where
  "md_bad_xml = \<lparr>dumppdfLocation = Some ''/usr/bin/dumppdf.py'', stderr_data = [],
     md_exit_code = Some 0, md_parsed = Inl ParseXmlFailed\<rparr>"

definition md_run :: "pdfobject list \<Rightarrow> metadata_run" where
  "md_run objects = \<lparr>dumppdfLocation = Some ''/usr/bin/dumppdf.py'', stderr_data = [],
     md_exit_code = Some 0, md_parsed = Inr (Some objects)\<rparr>"

text \<open>A word of the given text, in a box that both annotations of \<open>md_two_links\<close> cover.\<close>

definition plain_word :: "string \<Rightarrow> word" where
  "plain_word s =
     \<lparr>wbox = \<lparr>bleft = 0, btop = 42, bwidth = 40, bheight = 10\<rparr>,
      wcontent = map (\<lambda>c. \<lparr>cbox = \<lparr>bleft = 0, btop = 42, bwidth = 40, bheight = 10\<rparr>,
                           ccontent = [c], cfont = arial\<rparr>) s,
      wfont = arial, properties = Map.empty\<rparr>"

section \<open>The configuration manager: module names\<close>

text \<open>
  \<open>ServerManager\<close> (\<^verbatim>\<open>src/unnamed/part_000\<close>). The directory read by \<open>getModules\<close> is its
  list of entries; the file read by \<open>getModuleConfig\<close> is given by its path. Names are
  ASCII: \<open>[a-z]\<close>, \<open>[A-Z]\<close>, \<open>toLowerCase\<close> and \<open>toUpperCase\<close> are those of the ASCII
  letters.
\<close>

record dirent =
  dirent_name :: string
  isDirectory :: bool

text \<open>\<^verbatim>\<open>d.replace(/([a-z])([A-Z])/g, '$1-$2')\<close>: matches are found from left to right and do not overlap.\<close>

fun hyphenate :: "string \<Rightarrow> string" where
  "hyphenate (a # b # cs) =
     (if is_lower a \<and> is_upper b then a # CHR ''-'' # b # hyphenate cs
      else a # hyphenate (b # cs))"
| "hyphenate cs = cs"

text \<open>\<^verbatim>\<open>d.replace(/-module/g, '')\<close>.\<close>

fun strip_module :: "string \<Rightarrow> string" where
  "strip_module [] = []"
| "strip_module (c # cs) =
     (if prefix ''-module'' (c # cs) then strip_module (drop 6 cs) else c # strip_module cs)"

definition getModules :: "dirent list \<Rightarrow> string list" where
  "getModules entries =
     map strip_module
       (map (\<lambda>d. toLowerCase (hyphenate d))
          (map dirent_name (filter isDirectory entries)))"

text \<open>\<open>s.split(c)\<close> and \<open>ws.join(sep)\<close>.\<close>

fun split_on :: "char \<Rightarrow> string \<Rightarrow> string list" where
  "split_on c [] = [[]]"
| "split_on c (x # xs) =
     (if x = c then [] # split_on c xs
      else (case split_on c xs of [] \<Rightarrow> [[x]] | w # ws \<Rightarrow> (x # w) # ws))"

fun join_with :: "string \<Rightarrow> string list \<Rightarrow> string" where
  "join_with sep [] = []"
| "join_with sep [w] = w"
| "join_with sep (w # v # ws) = w @ sep @ join_with sep (v # ws)"

text \<open>\<^verbatim>\<open>w[0].toUpperCase() + w.substr(1).toLowerCase()\<close>; \<open>w[0]\<close> of the empty string is \<open>undefined\<close>.\<close>

definition capitalise :: "string \<Rightarrow> error + string" where
  "capitalise w = (case w of [] \<Rightarrow> Inl TypeError | c # cs \<Rightarrow> Inr (upper_char c # toLowerCase cs))"

definition moduleFolderName :: "string \<Rightarrow> error + string" where
  "moduleFolderName moduleName =
     (case traverse capitalise (split_on CHR ''-'' (moduleName @ ''-module'')) of
        Inl e \<Rightarrow> Inl e
      | Inr ws \<Rightarrow> Inr (join_with [] ws))"

text \<open>The path of the file that \<open>getModuleConfig\<close> reads and parses.\<close>

definition defaultModulesFolder :: string where
  "defaultModulesFolder = ''../../server/src/processing''"

definition getModuleConfig_path :: "string \<Rightarrow> error + string" where
  "getModuleConfig_path moduleName =
     (case moduleFolderName moduleName of
        Inl e \<Rightarrow> Inl e
      | Inr folder \<Rightarrow> Inr (defaultModulesFolder @ ''/'' @ folder @ ''/defaultConfig.json''))"

text \<open>
  A capitalized word: an upper-case letter followed by one or more lower-case letters.
\<close>

definition cap_word :: "string \<Rightarrow> bool" where
  "cap_word w = (case w of [] \<Rightarrow> False | c # cs \<Rightarrow> is_upper c \<and> cs \<noteq> [] \<and> list_all is_lower cs)"

section \<open>Theorems\<close>

lemma toc_item_inj:
  "(map (\<lambda>e. \<lparr>description = md e, pageNum = ''0'', level = 0\<rparr>) xs
      = map (\<lambda>e. \<lparr>description = md e, pageNum = ''0'', level = 0\<rparr>) ys)
   = (map md xs = map md ys)"
proof
  assume "map (\<lambda>e. \<lparr>description = md e, pageNum = ''0'', level = 0\<rparr>) xs
      = map (\<lambda>e. \<lparr>description = md e, pageNum = ''0'', level = 0\<rparr>) ys"
  then have "map description (map (\<lambda>e. \<lparr>description = md e, pageNum = ''0'', level = 0\<rparr>) xs)
      = map description (map (\<lambda>e. \<lparr>description = md e, pageNum = ''0'', level = 0\<rparr>) ys)"
    by simp
  then show "map md xs = map md ys"
    by (simp add: comp_def)
next
  assume "map md xs = map md ys"
  then have "map (\<lambda>d. \<lparr>description = d, pageNum = ''0'', level = 0\<rparr>) (map md xs)
      = map (\<lambda>d. \<lparr>description = d, pageNum = ''0'', level = 0\<rparr>) (map md ys)"
    by simp
  then show "map (\<lambda>e. \<lparr>description = md e, pageNum = ''0'', level = 0\<rparr>) xs
      = map (\<lambda>e. \<lparr>description = md e, pageNum = ''0'', level = 0\<rparr>) ys"
    by (simp add: comp_def)
qed

text \<open>
  C8. Assigning an array of n elements to \<open>content\<close> recomputes \<open>items\<close> as n items, in
  the order of the elements: the item of an element has the element's markdown as its
  description, the page number \<^verbatim>\<open>'0'\<close> and the level 0. The getter of \<open>content\<close> gives
  the assigned array itself. Every change of that array in place afterwards (\<open>f\<close> is any
  such change; \<open>push\<close> is one) is seen through \<open>content\<close>, but \<open>items\<close> stays the list
  computed from the array as it was when it was assigned: it agrees with what the
  content would give exactly when the change left the markdown of the elements as it
  was, and never after a \<open>push\<close>.
\<close>

theorem toc_items_recomputed_on_assignment_only:
  "get_items (set_content md (h, t) a)
     = map (\<lambda>e. \<lparr>description = md e, pageNum = ''0'', level = 0\<rparr>) (h a)
   \<and> map description (get_items (set_content md (h, t) a)) = map md (h a)
   \<and> map pageNum (get_items (set_content md (h, t) a)) = replicate (length (h a)) ''0''
   \<and> map level (get_items (set_content md (h, t) a)) = replicate (length (h a)) 0
   \<and> get_items (set_content md (h, t) a) = map (contentToTOCItem md) (h a)
   \<and> length (get_items (set_content md (h, t) a)) = length (h a)
   \<and> get_content (set_content md (h, t) a) = h a
   \<and> get_content (mutate_content (set_content md (h, t) a) f) = f (h a)
   \<and> get_items (mutate_content (set_content md (h, t) a) f)
       = map (\<lambda>e. \<lparr>description = md e, pageNum = ''0'', level = 0\<rparr>) (h a)
   \<and> map description (get_items (mutate_content (set_content md (h, t) a) f)) = map md (h a)
   \<and> (get_items (mutate_content (set_content md (h, t) a) f)
        = map (\<lambda>e. \<lparr>description = md e, pageNum = ''0'', level = 0\<rparr>)
            (get_content (mutate_content (set_content md (h, t) a) f)))
       = (map md (f (h a)) = map md (h a))
   \<and> push_content (set_content md (h, t) a) e
       = mutate_content (set_content md (h, t) a) (\<lambda>xs. xs @ [e])
   \<and> get_content (push_content (set_content md (h, t) a) e) = h a @ [e]
   \<and> get_items (push_content (set_content md (h, t) a) e)
       = get_items (set_content md (h, t) a)
   \<and> get_items (push_content (set_content md (h, t) a) e)
       \<noteq> map (\<lambda>e. \<lparr>description = md e, pageNum = ''0'', level = 0\<rparr>)
            (get_content (push_content (set_content md (h, t) a) e))
   \<and> get_items (push_content (set_content md (h, t) a) e)
       \<noteq> map (contentToTOCItem md) (get_content (push_content (set_content md (h, t) a) e))"
proof -
  let ?st = "set_content md (h, t) a"
  let ?item = "\<lambda>e. \<lparr>description = md e, pageNum = ''0'', level = 0\<rparr>"
  have helper: "contentToTOCItem md = ?item"
    by (rule ext) (simp add: contentToTOCItem_def)
  have items: "get_items ?st = map ?item (h a)"
    by (simp add: set_content_def updateItems_def set_items_def get_items_def get_content_def
        helper)
  have descr: "map description (get_items ?st) = map md (h a)"
    by (simp add: items comp_def)
  have pages: "map pageNum (get_items ?st) = replicate (length (h a)) ''0''"
    by (simp add: items comp_def map_replicate_const)
  have levels: "map level (get_items ?st) = replicate (length (h a)) 0"
    by (simp add: items comp_def map_replicate_const)
  have items_helper: "get_items ?st = map (contentToTOCItem md) (h a)"
    by (simp add: items helper)
  have len: "length (get_items ?st) = length (h a)"
    by (simp add: items)
  have cont: "get_content ?st = h a"
    by (simp add: set_content_def updateItems_def set_items_def get_content_def)
  have mut_cont: "get_content (mutate_content ?st f) = f (h a)"
    by (simp add: mutate_content_def get_content_def set_content_def updateItems_def
        set_items_def)
  have mut_kept: "get_items (mutate_content ?st f) = get_items ?st"
    by (simp add: mutate_content_def get_items_def)
  have mut_items: "get_items (mutate_content ?st f) = map ?item (h a)"
    by (simp add: mut_kept items)
  have mut_descr: "map description (get_items (mutate_content ?st f)) = map md (h a)"
    by (simp add: mut_kept descr)
  have mut_stale: "(get_items (mutate_content ?st f)
        = map ?item (get_content (mutate_content ?st f)))
      = (map md (f (h a)) = map md (h a))"
  proof -
    have "(get_items (mutate_content ?st f) = map ?item (get_content (mutate_content ?st f)))
        = (map ?item (h a) = map ?item (f (h a)))"
      by (simp only: mut_items mut_cont)
    also have "\<dots> = (map md (h a) = map md (f (h a)))"
      by (rule toc_item_inj)
    also have "\<dots> = (map md (f (h a)) = map md (h a))"
      by (rule eq_commute)
    finally show ?thesis .
  qed
  have push_mut: "push_content ?st e = mutate_content ?st (\<lambda>xs. xs @ [e])"
    by (simp add: push_content_def mutate_content_def)
  have pushed: "get_content (push_content ?st e) = h a @ [e]"
    by (simp add: push_content_def get_content_def set_content_def updateItems_def
        set_items_def)
  have kept: "get_items (push_content ?st e) = get_items ?st"
    by (simp add: push_content_def get_items_def)
  have "length (get_items (push_content ?st e)) = length (h a)"
    using kept items by simp
  moreover have "length (map ?item (get_content (push_content ?st e))) = Suc (length (h a))"
    using pushed by simp
  ultimately have stale: "get_items (push_content ?st e)
      \<noteq> map ?item (get_content (push_content ?st e))"
    by (metis n_not_Suc_n)
  have stale_helper: "get_items (push_content ?st e)
      \<noteq> map (contentToTOCItem md) (get_content (push_content ?st e))"
    unfolding helper by (rule stale)
  show ?thesis
    using items descr pages levels items_helper len cont mut_cont mut_items mut_descr
      mut_stale push_mut pushed kept stale stale_helper
    by (intro conjI)
qed

text \<open>
  The sample run: the two headings are assigned, then the first one is replaced in
  place through the getter. \<open>content\<close> shows the replacement; \<open>items\<close> still describes
  the heading that was there at the assignment.
\<close>

theorem toc_items_recomputed_on_assignment_only_witness:
  "get_items (set_content heading_md (sample_arrays, sample_toc) 1)
     = [\<lparr>description = ''# Intro'', pageNum = ''0'', level = 0\<rparr>,
        \<lparr>description = ''# Scope'', pageNum = ''0'', level = 0\<rparr>]
   \<and> get_content (set_content heading_md (sample_arrays, sample_toc) 1)
     = [''Intro'', ''Scope'']
   \<and> get_content (mutate_content (set_content heading_md (sample_arrays, sample_toc) 1)
        (\<lambda>xs. xs[0 := ''Preface'']))
     = [''Preface'', ''Scope'']
   \<and> get_items (mutate_content (set_content heading_md (sample_arrays, sample_toc) 1)
        (\<lambda>xs. xs[0 := ''Preface'']))
     = [\<lparr>description = ''# Intro'', pageNum = ''0'', level = 0\<rparr>,
        \<lparr>description = ''# Scope'', pageNum = ''0'', level = 0\<rparr>]
   \<and> get_content (push_content (set_content heading_md (sample_arrays, sample_toc) 1)
        ''Annex'')
     = [''Intro'', ''Scope'', ''Annex'']
   \<and> map description
        (get_items (push_content (set_content heading_md (sample_arrays, sample_toc) 1)
           ''Annex''))
     = [''# Intro'', ''# Scope'']"
  using toc_items_recomputed_on_assignment_only
    [where md = heading_md and h = sample_arrays and t = sample_toc and a = 1
       and f = "\<lambda>xs. xs[0 := ''Preface'']" and e = "''Annex''"]
  by (elim conjE) (simp add: sample_arrays_def heading_md_def)

subsection \<open>Fake spaces\<close>

lemma foldl_flag:
  "foldl (\<lambda>flag pos. if P pos then True else flag) b xs = (b \<or> (\<exists>pos \<in> set xs. P pos))"
  by (induction xs arbitrary: b) auto

lemma positions_where:
  "set (map snd (filter (\<lambda>(w, pos). Q w) (zip xs [0 ..< length xs])))
   = {i. i < length xs \<and> Q (xs ! i)}"
proof -
  have "set (zip xs [0 ..< length xs]) = {(xs ! i, i) | i. i < length xs}"
    by (auto simp: set_zip)
  then show ?thesis by (auto simp: image_iff)
qed

lemma thereAreFakeSpaces_iff:
  "thereAreFakeSpaces line \<longleftrightarrow>
     (\<exists>j. Suc j < length (line_text line) \<and> empty_no_attr (line_text line ! j)
          \<and> empty_with_attr (line_text line ! Suc j))"
proof -
  let ?xs = "line_text line"
  have a: "set (map snd (filter (\<lambda>(w, pos). slot_text w = None \<and> slot_attr w \<noteq> None)
              (zip ?xs [0 ..< length ?xs]))) = {i. i < length ?xs \<and> empty_with_attr (?xs ! i)}"
    using positions_where [of "\<lambda>w. slot_text w = None \<and> slot_attr w \<noteq> None" ?xs]
    by (simp add: empty_with_attr_def)
  have b: "set (map snd (filter (\<lambda>(w, pos). slot_text w = None \<and> slot_attr w = None)
              (zip ?xs [0 ..< length ?xs]))) = {i. i < length ?xs \<and> empty_no_attr (?xs ! i)}"
    using positions_where [of "\<lambda>w. slot_text w = None \<and> slot_attr w = None" ?xs]
    by (simp add: empty_no_attr_def)
  have "thereAreFakeSpaces line \<longleftrightarrow>
      (\<exists>pos \<in> {i. i < length ?xs \<and> empty_no_attr (?xs ! i)}.
          pos + 1 \<in> {i. i < length ?xs \<and> empty_with_attr (?xs ! i)})"
    unfolding thereAreFakeSpaces_def Let_def foldl_flag a b by simp
  then show ?thesis by auto
qed

text \<open>
  C2, as the code has it. The slots that line reconstruction keeps are those that are
  not a character not allowed and are not fake: an empty slot without attributes is
  excluded iff somewhere in the line an empty slot without attributes is immediately
  followed by an empty slot with attributes. The test is one flag for the whole line,
  not a test of the slot's own successor.
\<close>

theorem fake_spaces_whole_line:
  "kept_slots line =
     filter (\<lambda>c. \<not> not_allowed c
               \<and> \<not> (empty_no_attr c
                    \<and> (\<exists>j. Suc j < length (line_text line) \<and> empty_no_attr (line_text line ! j)
                            \<and> empty_with_attr (line_text line ! Suc j))))
       (line_text line)"
proof -
  have k: "keeps_slot b = (\<lambda>c. \<not> not_allowed c \<and> \<not> (empty_no_attr c \<and> b))" for b
    by (rule ext) (auto simp: keeps_slot_def isFakeChar_def not_allowed_def empty_no_attr_def)
  show ?thesis
    unfolding kept_slots_def k thereAreFakeSpaces_iff by (rule refl)
qed

text \<open>
  C2, as the claim has it, fails on \<open>ex_line\<close>: slot 3 is empty and without attributes,
  the slot after it is a letter, and still slot 3 is excluded, so that the letters around
  it end up in one word.
\<close>

theorem fake_spaces_counterexample:
  "empty_no_attr (line_text ex_line ! 3)
   \<and> \<not> (Suc 3 < length (line_text ex_line) \<and> empty_with_attr (line_text ex_line ! Suc 3))
   \<and> \<not> keeps_slot (thereAreFakeSpaces ex_line) (line_text ex_line ! 3)
   \<and> kept_slots ex_line = [space, glyph ''a'', glyph ''b'']"
  by code_simp

subsection \<open>The dominant font\<close>

lemma isEqual_iff: "isEqual a b \<longleftrightarrow> a = b"
  by (cases a, cases b) (auto simp: isEqual_def)

lemma occurrences_count: "occurrences f fs = count_list fs f"
  by (induction fs) (auto simp: occurrences_def isEqual_iff)

lemma first_pos_eq: "first_pos f fs = length (takeWhile (\<lambda>g. g \<noteq> f) fs)"
proof -
  have "(\<lambda>g. \<not> isEqual f g) = (\<lambda>g. g \<noteq> f)" by (auto simp: isEqual_iff)
  then show ?thesis by (simp add: first_pos_def)
qed

lemma foldl_snoc_copy: "foldl (\<lambda>a b. a @ [b]) acc xs = acc @ xs"
  by (induction xs arbitrary: acc) auto

lemma firsts_snoc: "firsts (xs @ [x]) = (if x \<in> set xs then firsts xs else firsts xs @ [x])"
  by (simp add: firsts_def)

lemma set_firsts: "set (firsts xs) = set xs"
  by (simp add: firsts_def)

lemma count_list_snoc: "count_list (xs @ [x]) y = count_list xs y + (if x = y then 1 else 0)"
  by (induction xs) auto

lemma count_list_pos: "x \<in> set xs \<Longrightarrow> 0 < count_list xs x"
  by (induction xs) auto

lemma basket_takes_replicate:
  "basket_takes f (replicate n g) \<longleftrightarrow> 0 < n \<and> g = f"
  by (cases n) (auto simp: basket_takes_def isEqual_iff)

lemma place_font_known:
  assumes "f \<in> set fs"
  shows "place_font (map (\<lambda>g. replicate (count_list fs g) g) (firsts fs)) f
         = map (\<lambda>g. replicate (count_list (fs @ [f]) g) g) (firsts fs)"
proof -
  have found: "list_ex (basket_takes f) (map (\<lambda>g. replicate (count_list fs g) g) (firsts fs))"
    using assms by (auto simp: list_ex_iff basket_takes_replicate set_firsts count_list_pos)
  have "(if basket_takes f (replicate (count_list fs g) g)
         then replicate (count_list fs g) g @ [f] else replicate (count_list fs g) g)
        = replicate (count_list (fs @ [f]) g) g" for g
    using assms
    by (auto simp: basket_takes_replicate count_list_snoc replicate_append_same count_list_pos)
  then show ?thesis using found by (simp add: place_font_def Let_def comp_def)
qed

lemma place_font_new:
  assumes "f \<notin> set fs"
  shows "place_font (map (\<lambda>g. replicate (count_list fs g) g) (firsts fs)) f
         = map (\<lambda>g. replicate (count_list (fs @ [f]) g) g) (firsts fs @ [f])"
proof -
  have nf: "\<not> list_ex (basket_takes f) (map (\<lambda>g. replicate (count_list fs g) g) (firsts fs))"
    using assms by (auto simp: list_ex_iff basket_takes_replicate set_firsts)
  have same: "map (\<lambda>g. if basket_takes f (replicate (count_list fs g) g)
         then replicate (count_list fs g) g @ [f] else replicate (count_list fs g) g) (firsts fs)
        = map (\<lambda>g. replicate (count_list (fs @ [f]) g) g) (firsts fs)"
    using assms by (intro map_cong) (auto simp: basket_takes_replicate count_list_snoc set_firsts)
  have "count_list fs f = 0" using assms by (simp add: count_list_0_iff)
  then have last: "replicate (count_list (fs @ [f]) f) f = [f]"
    by (simp add: count_list_snoc)
  show ?thesis using nf same last by (simp add: place_font_def Let_def comp_def)
qed

lemma baskets_shape:
  "foldl place_font [] fs = map (\<lambda>g. replicate (count_list fs g) g) (firsts fs)"
proof (induction fs rule: rev_induct)
  case Nil
  show ?case by (simp add: firsts_def)
next
  case (snoc f fs)
  show ?case
  proof (cases "f \<in> set fs")
    case True
    then show ?thesis using snoc place_font_known [OF True] by (simp add: firsts_snoc)
  next
    case False
    then show ?thesis using snoc place_font_new [OF False] by (simp add: firsts_snoc)
  qed
qed

lemma array_sort_Cons: "array_sort cmp (x # xs) = insert_by cmp x (array_sort cmp xs)"
  by (simp add: array_sort_def)

lemma insert_by_not_Nil: "insert_by cmp x ys \<noteq> []"
  by (cases ys) auto

lemma array_sort_Nil_iff: "array_sort cmp xs = [] \<longleftrightarrow> xs = []"
  by (cases xs) (auto simp: array_sort_Cons insert_by_not_Nil array_sort_def)

lemma hd_insert_by:
  "ys \<noteq> [] \<Longrightarrow> hd (insert_by cmp x ys) = (if cmp x (hd ys) \<le> 0 then x else hd ys)"
  by (cases ys) auto

text \<open>The head of the sorted baskets is the first of the longest baskets.\<close>

lemma hd_array_sort_longest:
  "bs \<noteq> [] \<Longrightarrow>
   \<exists>pre m post. bs = pre @ m # post
     \<and> hd (array_sort (\<lambda>a b. int (length b) - int (length a)) bs) = m
     \<and> (\<forall>b \<in> set pre. length b < length m) \<and> (\<forall>b \<in> set post. length b \<le> length m)"
proof (induction bs)
  case Nil
  then show ?case by simp
next
  case (Cons x xs)
  let ?cmp = "\<lambda>a b. int (length b) - int (length a)"
  show ?case
  proof (cases "xs = []")
    case True
    have "x # xs = [] @ x # [] \<and> hd (array_sort ?cmp (x # xs)) = x"
      using True by (simp add: array_sort_def)
    then show ?thesis by (metis empty_iff empty_set)
  next
    case False
    from Cons.IH [OF False] obtain pre m post where d: "xs = pre @ m # post"
      and h: "hd (array_sort ?cmp xs) = m"
      and lt: "\<forall>b \<in> set pre. length b < length m"
      and le: "\<forall>b \<in> set post. length b \<le> length m"
      by blast
    have ne: "array_sort ?cmp xs \<noteq> []" using False by (simp add: array_sort_Nil_iff)
    have hd': "hd (array_sort ?cmp (x # xs)) = (if length m \<le> length x then x else m)"
      using hd_insert_by [OF ne, of ?cmp x] h by (simp add: array_sort_Cons)
    show ?thesis
    proof (cases "length m \<le> length x")
      case True
      have "x # xs = [] @ x # xs" by simp
      moreover have "hd (array_sort ?cmp (x # xs)) = x" using hd' True by simp
      moreover have "\<forall>b \<in> set xs. length b \<le> length x"
        using d lt le True by auto
      ultimately show ?thesis by (metis empty_iff empty_set)
    next
      case False
      have "x # xs = (x # pre) @ m # post" using d by simp
      moreover have "hd (array_sort ?cmp (x # xs)) = m" using hd' False by simp
      moreover have "\<forall>b \<in> set (x # pre). length b < length m" using lt False by auto
      ultimately show ?thesis using le by blast
    qed
  qed
qed

lemma takeWhile_neq_snoc:
  "length (takeWhile (\<lambda>g. g \<noteq> a) (fs @ [f]))
   = (if a \<in> set fs then length (takeWhile (\<lambda>g. g \<noteq> a) fs)
      else if a = f then length fs else Suc (length fs))"
  by (induction fs) auto

lemma takeWhile_neq_less: "a \<in> set fs \<Longrightarrow> length (takeWhile (\<lambda>g. g \<noteq> a) fs) < length fs"
  by (induction fs) auto

lemma firsts_ordered:
  "sorted_wrt (\<lambda>a b. length (takeWhile (\<lambda>g. g \<noteq> a) fs) < length (takeWhile (\<lambda>g. g \<noteq> b) fs))
     (firsts fs)"
proof (induction fs rule: rev_induct)
  case Nil
  show ?case by (simp add: firsts_def)
next
  case (snoc f fs)
  have keep: "sorted_wrt (\<lambda>a b. length (takeWhile (\<lambda>g. g \<noteq> a) (fs @ [f]))
                < length (takeWhile (\<lambda>g. g \<noteq> b) (fs @ [f]))) (firsts fs)"
    by (rule sorted_wrt_mono_rel [OF _ snoc]) (simp add: takeWhile_neq_snoc set_firsts)
  show ?case
  proof (cases "f \<in> set fs")
    case True
    then show ?thesis using keep by (simp add: firsts_snoc)
  next
    case False
    then show ?thesis using keep
      by (auto simp: firsts_snoc sorted_wrt_append set_firsts takeWhile_neq_snoc
          takeWhile_neq_less)
  qed
qed

text \<open>
  C3. Of no fonts the dominant font is the undefined font. Of a non-empty sequence it is
  one of the fonts, no font occurs more often than it (so a font that occurs strictly
  most often is the one returned), and every other font that occurs as often has its
  first occurrence later in the sequence.
\<close>

theorem getMostCommonFont_dominant:
  "getMostCommonFont [] = undefinedFont
   \<and> (fs \<noteq> [] \<longrightarrow>
        getMostCommonFont fs \<in> set fs
        \<and> (\<forall>g. occurrences g fs \<le> occurrences (getMostCommonFont fs) fs)
        \<and> (\<forall>g. \<not> isEqual (getMostCommonFont fs) g
               \<and> occurrences g fs = occurrences (getMostCommonFont fs) fs
               \<longrightarrow> first_pos (getMostCommonFont fs) fs < first_pos g fs))"
proof (intro conjI impI)
  show "getMostCommonFont [] = undefinedFont"
    by (simp add: getMostCommonFont_def array_sort_def)
next
  assume ne: "fs \<noteq> []"
  let ?cmp = "\<lambda>a b. int (length b) - int (length (a :: font list))"
  let ?F = "\<lambda>g. replicate (count_list fs g) g"
  let ?bs = "map ?F (firsts fs)"
  have bs_ne: "?bs \<noteq> []" using ne set_firsts [of fs] by (cases "firsts fs") auto
  from hd_array_sort_longest [OF bs_ne] obtain pre m post where
    d: "?bs = pre @ m # post" and h: "hd (array_sort ?cmp ?bs) = m"
    and lt: "\<forall>b \<in> set pre. length b < length m"
    and le: "\<forall>b \<in> set post. length b \<le> length m"
    by blast
  from d obtain pre' r post' where d': "firsts fs = pre' @ r # post'"
    and pre: "pre = map ?F pre'" and m: "m = ?F r" and post: "post = map ?F post'"
    by (auto simp: map_eq_append_conv map_eq_Cons_conv)
  have r_in: "r \<in> set fs" using d' set_firsts [of fs] by auto
  then obtain k where k: "count_list fs r = Suc k"
    using count_list_pos [OF r_in] by (cases "count_list fs r") auto
  have sorted_ne: "array_sort ?cmp ?bs \<noteq> []" using bs_ne by (simp add: array_sort_Nil_iff)
  then obtain s ss where s: "array_sort ?cmp ?bs = s # ss" by (cases "array_sort ?cmp ?bs") auto
  have "s = r # replicate k r" using h s m k by simp
  then have res: "getMostCommonFont fs = r"
    using s by (simp add: getMostCommonFont_def foldl_snoc_copy baskets_shape)
  have max: "count_list fs g \<le> count_list fs r" for g
  proof (cases "g \<in> set fs")
    case True
    then have "g \<in> set pre' \<or> g = r \<or> g \<in> set post'" using d' set_firsts [of fs] by auto
    then show ?thesis using lt le pre post m by auto
  next
    case False
    then show ?thesis by (simp add: count_list_0_iff)
  qed
  have tie: "first_pos r fs < first_pos g fs" if "g \<noteq> r" "count_list fs g = count_list fs r" for g
  proof -
    have "g \<in> set fs" using that k by (metis count_list_0_iff nat.distinct(1))
    then have "g \<in> set pre' \<or> g \<in> set post'" using d' set_firsts [of fs] that by auto
    moreover have "g \<notin> set pre'" using lt pre m that by auto
    ultimately have "g \<in> set post'" by simp
    then show ?thesis using firsts_ordered [of fs] d'
      by (auto simp: sorted_wrt_append first_pos_eq)
  qed
  show "getMostCommonFont fs \<in> set fs" using res r_in by simp
  show "\<forall>g. occurrences g fs \<le> occurrences (getMostCommonFont fs) fs"
    using max res by (simp add: occurrences_count)
  show "\<forall>g. \<not> isEqual (getMostCommonFont fs) g
         \<and> occurrences g fs = occurrences (getMostCommonFont fs) fs
         \<longrightarrow> first_pos (getMostCommonFont fs) fs < first_pos g fs"
    using tie res by (auto simp: occurrences_count isEqual_iff)
qed

text \<open>
  Two fonts that occur twice each: the one whose first occurrence is earlier is returned.
\<close>

theorem getMostCommonFont_dominant_witness:
  "[times_bold, arial, arial, times_bold] \<noteq> []
   \<and> getMostCommonFont [times_bold, arial, arial, times_bold] = times_bold
   \<and> occurrences arial [times_bold, arial, arial, times_bold] = 2
   \<and> occurrences times_bold [times_bold, arial, arial, times_bold] = 2
   \<and> first_pos times_bold [times_bold, arial, arial, times_bold]
       < first_pos arial [times_bold, arial, arial, times_bold]"
proof -
  let ?fs = "[times_bold, arial, arial, times_bold]"
  have ne: "?fs \<noteq> []" by simp
  have r: "getMostCommonFont ?fs = times_bold" by code_simp
  have oa: "occurrences arial ?fs = 2" by code_simp
  have ot: "occurrences times_bold ?fs = 2" by code_simp
  have neq: "\<not> isEqual times_bold arial" by code_simp
  have "first_pos (getMostCommonFont ?fs) ?fs < first_pos arial ?fs"
    using getMostCommonFont_dominant [of ?fs] ne r oa ot neq by simp
  then show ?thesis using ne r oa ot by simp
qed

subsection \<open>Pages and embedded images\<close>

lemma treat_figure_promises:
  "snd (foldl (treat_figure run loc h) (es, ps) figs) = ps"
  by (induction figs arbitrary: es) (auto simp: treat_figure_def Let_def)

lemma treat_figure_elements:
  "fst (foldl (treat_figure run loc h) (es, ps) figs)
   = es @ concat (map (\<lambda>fig. map EImage (interpretImages fig loc h 1)) figs)"
  by (induction figs arbitrary: es) (auto simp: treat_figure_def Let_def)

lemma treat_figures:
  "foldl (treat_figure run loc h) (es, []) figs
   = (es @ concat (map (\<lambda>fig. map EImage (interpretImages fig loc h 1)) figs), [])"
  using treat_figure_promises [of run loc h es "[]" figs]
    treat_figure_elements [of run loc h es "[]" figs]
  by (metis prod.collapse)

lemma getPage_any_run: "getPage run pageObj loc = getPage run' pageObj loc"
  by (cases "page_bbox pageObj")
     (simp add: getPage_def Let_def treat_figures split: sum.splits option.splits)

text \<open>
  C1 at a failing input. Whatever the nested extraction does, the page is the one built
  when no nested run ever settles: the list of promises awaited is empty, because
  \<open>concat\<close> does not change \<open>imgOCRPromises\<close>. On \<open>fig_page\<close>, whose image the nested run
  turns into a document of two words, the page holds the word of the text line and the
  image, two elements, and not four.
\<close>

theorem getPage_drops_ocr_results:
  "getPage run pageObj loc = getPage (\<lambda>file. Pending) pageObj loc
   \<and> ocr_run ''/tmp/imgs/img0.png'' = Fulfilled ocr_doc
   \<and> length (getAllElements ocr_doc) = 2
   \<and> (case getPage ocr_run fig_page ''/tmp/imgs'' of
         Fulfilled p \<Rightarrow>
           map (\<lambda>e. case e of EWord w \<Rightarrow> concat (map ccontent (wcontent w)) | EImage i \<Rightarrow> src i)
             (elements p)
       | _ \<Rightarrow> []) = [''a'', ''/tmp/imgs/img0.png'']"
proof -
  have a: "getPage run pageObj loc = getPage (\<lambda>file. Pending) pageObj loc"
    by (rule getPage_any_run)
  have b: "ocr_run ''/tmp/imgs/img0.png'' = Fulfilled ocr_doc" by (simp add: ocr_run_def)
  have c: "length (getAllElements ocr_doc) = 2" by code_simp
  have d: "(case getPage ocr_run fig_page ''/tmp/imgs'' of
         Fulfilled p \<Rightarrow>
           map (\<lambda>e. case e of EWord w \<Rightarrow> concat (map ccontent (wcontent w)) | EImage i \<Rightarrow> src i)
             (elements p)
       | _ \<Rightarrow> []) = [''a'', ''/tmp/imgs/img0.png'']"
    by code_simp
  show ?thesis using a b c d by simp
qed

subsection \<open>The exit code of the extraction tool\<close>

text \<open>
  C7, as the code has it, for a run in which the extraction tool was found and started.
  The run fails with the error that carries the exit status iff the status is not 0.
  With status 0, and XML that parses into pages all of which are built, the run resolves
  with the document of these pages.
\<close>

theorem execute_exit_code:
  assumes "pdf2txtLocation env = Some loc"
  shows "(execute run file env = Rejected (ReturnCode (exit_code env)) \<longleftrightarrow> exit_code env \<noteq> Some 0)
       \<and> (exit_code env = Some 0 \<and> parsed_xml env = Inr (Some pageObjs)
            \<and> promise_all (map (\<lambda>pageObj. getPage run pageObj (imgsLocation env)) pageObjs)
                = Fulfilled ps \<longrightarrow>
            execute run file env = Fulfilled \<lparr>pages = ps, inputFile = file\<rparr>)"
proof -
  have a: "execute run file env = Rejected (ReturnCode (exit_code env))"
    if "exit_code env \<noteq> Some 0"
    using that assms by (simp add: execute_def on_close_def)
  have b: "execute run file env \<noteq> Rejected e" if "exit_code env = Some 0" for e
    using that assms
    by (simp add: execute_def on_close_def split: sum.splits option.splits promise.splits)
  have c: "execute run file env = Fulfilled \<lparr>pages = ps, inputFile = file\<rparr>"
    if "exit_code env = Some 0" "parsed_xml env = Inr (Some pageObjs)"
      "promise_all (map (\<lambda>pageObj. getPage run pageObj (imgsLocation env)) pageObjs) = Fulfilled ps"
    using that assms by (simp add: execute_def on_close_def)
  show ?thesis using a b c by blast
qed

text \<open>
  C7, as the claim has it, fails when the tool exits with status 0 and leaves XML that
  does not parse: the run does not resolve with a document.
\<close>

theorem execute_bad_xml_counterexample:
  "pdf2txtLocation env_bad_xml = Some ''/usr/bin/pdf2txt.py''
   \<and> exit_code env_bad_xml = Some 0
   \<and> execute ocr_run ''in.pdf'' env_bad_xml = Pending"
  by (simp add: execute_def on_close_def env_bad_xml_def)

theorem execute_exit_code_witness:
  "pdf2txtLocation env_exit1 = Some ''/usr/bin/pdf2txt.py''
   \<and> exit_code env_exit1 \<noteq> Some 0
   \<and> execute ocr_run ''in.pdf'' env_exit1 = Rejected (ReturnCode (Some 1))
   \<and> exit_code env_ok = Some 0
   \<and> (case execute ocr_run ''in.pdf'' env_ok of
         Fulfilled d \<Rightarrow> (map pageNumber (pages d), map (length \<circ> elements) (pages d), inputFile d)
       | _ \<Rightarrow> ([], [], [])) = ([1], [2], ''in.pdf'')"
proof -
  have l1: "pdf2txtLocation env_exit1 = Some ''/usr/bin/pdf2txt.py''"
    by (simp add: env_exit1_def)
  have c1: "exit_code env_exit1 \<noteq> Some 0" by (simp add: env_exit1_def)
  have r1: "execute ocr_run ''in.pdf'' env_exit1 = Rejected (ReturnCode (Some 1))"
    using execute_exit_code [OF l1, of ocr_run "''in.pdf''"] c1 by (simp add: env_exit1_def)
  have l2: "pdf2txtLocation env_ok = Some ''/usr/bin/pdf2txt.py''"
    by (simp add: env_ok_def)
  have c2: "exit_code env_ok = Some 0" by (simp add: env_ok_def)
  have p2: "parsed_xml env_ok = Inr (Some [fig_page])" by (simp add: env_ok_def)
  obtain p where p: "getPage ocr_run fig_page (imgsLocation env_ok) = Fulfilled p"
    and pn: "pageNumber p = 1" and pl: "length (elements p) = 2"
  proof -
    have "(case getPage ocr_run fig_page (imgsLocation env_ok) of
             Fulfilled p \<Rightarrow> pageNumber p = 1 \<and> length (elements p) = 2 | _ \<Rightarrow> False)"
      by code_simp
    then show ?thesis using that by (auto split: promise.splits)
  qed
  have a2: "promise_all (map (\<lambda>pageObj. getPage ocr_run pageObj (imgsLocation env_ok)) [fig_page])
      = Fulfilled [p]"
    using p by simp
  have r2: "execute ocr_run ''in.pdf'' env_ok = Fulfilled \<lparr>pages = [p], inputFile = ''in.pdf''\<rparr>"
    using execute_exit_code [OF l2, of ocr_run "''in.pdf''" "[fig_page]" "[p]"] c2 p2 a2 by simp
  show ?thesis using l1 c1 r1 c2 r2 pn pl by simp
qed

subsection \<open>Dereferencing the annotations\<close>


lemma deepSearch_unfold:
  "deepSearchObjectsWithIds (Suc k) objects ids =
     (case traverse (deref_one k objects) ids of Inl e \<Rightarrow> Inl e | Inr found \<Rightarrow> Inr (concat found))"
proof -
  have e: "deref_one k objects =
      (\<lambda>ident. bind_err (need (find_object objects ident)) (\<lambda>obj.
         (case obj_dict obj of
            Some d \<Rightarrow> Inr [obj]
          | None \<Rightarrow>
              bind_err (need (obj_list obj)) (\<lambda>l.
              bind_err (need (l_ref l)) (\<lambda>refs.
              deepSearchObjectsWithIds k objects refs)))))"
    by (rule ext) (simp add: deref_one_def)
  show ?thesis unfolding e by simp
qed

declare deepSearchObjectsWithIds.simps(2) [simp del]

lemma deepSearch_Nil: "deepSearchObjectsWithIds (Suc k) objects [] = Inr []"
  by (simp add: deepSearch_unfold)

lemma deepSearch_Cons:
  "deepSearchObjectsWithIds (Suc k) objects (i # is) =
     bind_err (deref_one k objects i) (\<lambda>ds1.
     bind_err (deepSearchObjectsWithIds (Suc k) objects is) (\<lambda>ds2. Inr (ds1 @ ds2)))"
  by (simp add: deepSearch_unfold bind_err_def split: sum.splits)

lemma traverse_mono:
  "(\<And>x y. x \<in> set xs \<Longrightarrow> f x = Inr y \<Longrightarrow> g x = Inr y) \<Longrightarrow> traverse f xs = Inr ys
   \<Longrightarrow> traverse g xs = Inr ys"
proof (induction xs arbitrary: ys)
  case Nil
  then show ?case by simp
next
  case (Cons x xs)
  from Cons.prems(2) obtain y zs where y: "f x = Inr y" and zs: "traverse f xs = Inr zs"
    and ys: "ys = y # zs"
    by (auto split: sum.splits)
  have "g x = Inr y" using Cons.prems(1) y by simp
  moreover have "traverse g xs = Inr zs" using Cons.IH [OF _ zs] Cons.prems(1) by simp
  ultimately show ?case using ys by simp
qed

lemma deepSearch_Suc:
  "deepSearchObjectsWithIds k objects ids = Inr r
   \<Longrightarrow> deepSearchObjectsWithIds (Suc k) objects ids = Inr r"
proof (induction k arbitrary: ids r)
  case 0
  then show ?case by simp
next
  case (Suc k)
  from Suc.prems obtain found where f: "traverse (deref_one k objects) ids = Inr found"
    and r: "r = concat found"
    by (auto simp: deepSearch_unfold split: sum.splits)
  have "deref_one (Suc k) objects x = Inr y" if "deref_one k objects x = Inr y" for x y
    using that Suc.IH
    by (auto simp: deref_one_def bind_err_def need_def split: option.splits sum.splits)
  then have "traverse (deref_one (Suc k) objects) ids = Inr found"
    using traverse_mono [OF _ f] by blast
  then show ?case using r by (simp add: deepSearch_unfold [of "Suc k"])
qed

lemma deepSearch_mono:
  "deepSearchObjectsWithIds k objects ids = Inr r \<Longrightarrow> k \<le> m
   \<Longrightarrow> deepSearchObjectsWithIds m objects ids = Inr r"
  by (induction m) (auto simp: le_Suc_eq deepSearch_Suc)

lemma find_in_set: "List.find P xs = Some x \<Longrightarrow> x \<in> set xs \<and> P x"
  by (induction xs) (auto split: if_splits)

lemma refs_of_SomeD:
  "refs_of objects i = Some rs
   \<Longrightarrow> \<exists>ob \<in> set objects. obj_id ob = i \<and> (\<exists>l. obj_list ob = Some l \<and> l_ref l = Some rs)"
  by (auto simp: refs_of_def find_object_def split: option.splits dest: find_in_set)

lemma finite_ref_edges: "finite (ref_edges objects)"
proof -
  let ?R = "\<lambda>ob. case obj_list ob of None \<Rightarrow> [] | Some l \<Rightarrow> (case l_ref l of None \<Rightarrow> [] | Some rs \<Rightarrow> rs)"
  have "ref_edges objects \<subseteq> (\<Union>ob \<in> set objects. {obj_id ob} \<times> set (?R ob))"
  proof
    fix e assume "e \<in> ref_edges objects"
    then obtain i j rs where e: "e = (i, j)" and r: "refs_of objects i = Some rs" and j: "j \<in> set rs"
      by (auto simp: ref_edges_def)
    from refs_of_SomeD [OF r] obtain ob l where "ob \<in> set objects" "obj_id ob = i"
      "obj_list ob = Some l" "l_ref l = Some rs"
      by blast
    then show "e \<in> (\<Union>ob \<in> set objects. {obj_id ob} \<times> set (?R ob))"
      using e j by force
  qed
  moreover have "finite (\<Union>ob \<in> set objects. {obj_id ob} \<times> set (?R ob))"
  proof (rule finite_UN_I)
    show "finite (set objects)" by (rule finite_set)
  next
    fix ob
    show "finite ({obj_id ob} \<times> set (?R ob))"
      by (rule finite_cartesian_product) (simp, rule finite_set)
  qed
  ultimately show ?thesis by (rule finite_subset)
qed

lemma reachable_Nil: "reachable objects [] = {}"
  by (simp add: reachable_def)

lemma reachable_Cons: "reachable objects (i # is) = reachable objects [i] \<union> reachable objects is"
  by (auto simp: reachable_def)

lemma reachable_self: "i \<in> reachable objects [i]"
  by (simp add: reachable_def)

lemma reachable_no_refs: "refs_of objects i = None \<Longrightarrow> reachable objects [i] = {i}"
proof -
  assume n: "refs_of objects i = None"
  have "j = i" if "(i, j) \<in> (ref_edges objects)\<^sup>*" for j
    using that n by (induction rule: rtrancl_induct) (auto simp: ref_edges_def)
  then show ?thesis by (auto simp: reachable_def)
qed

lemma reachable_refs:
  assumes "refs_of objects i = Some rs"
  shows "reachable objects [i] = insert i (reachable objects rs)"
proof -
  have img: "ref_edges objects `` {i} = set rs"
    using assms by (auto simp: ref_edges_def)
  have "(ref_edges objects)\<^sup>* `` {i} = insert i ((ref_edges objects)\<^sup>* `` (ref_edges objects `` {i}))"
    by (auto elim: converse_rtranclE intro: converse_rtrancl_into_rtrancl)
  then show ?thesis by (simp add: reachable_def img)
qed

lemma dicts_from_Nil: "dicts_from objects [] = {}"
  by (simp add: dicts_from_def reachable_Nil)

lemma dicts_from_Cons:
  "dicts_from objects (i # is) = dicts_from objects [i] \<union> dicts_from objects is"
  by (auto simp: dicts_from_def reachable_Cons [of objects i "is"])

inductive_cases dfs_NilE: "dfs objects [] ds"

inductive_cases dfs_ConsE: "dfs objects (i # is) ds"

lemma dfs_single_append:
  assumes "dfs objects [i] ds1" and "dfs objects is ds2"
  shows "dfs objects (i # is) (ds1 @ ds2)"
proof -
  from assms(1) consider
    (dict) ob where "find_object objects i = Some ob" "obj_dict ob \<noteq> None" "ds1 = [ob]"
  | (list) rs where "refs_of objects i = Some rs" "dfs objects rs ds1"
    by (auto elim!: dfs_ConsE dfs_NilE)
  then show ?thesis
  proof cases
    case dict
    then show ?thesis using assms(2) by (simp add: dfs.dfs_dict)
  next
    case list
    then show ?thesis using assms(2) by (simp add: dfs.dfs_list)
  qed
qed

lemma settles_list:
  "(\<And>i. i \<in> set ids \<Longrightarrow> settles_one objects i) \<Longrightarrow> settles objects ids"
proof (induction ids)
  case Nil
  have "\<forall>stack \<ge> Suc 0. deepSearchObjectsWithIds stack objects [] = Inr []"
    by (metis Suc_le_D deepSearch_Nil)
  then show ?case unfolding settles_def
    using dfs_Nil dicts_from_Nil by (metis empty_set)
next
  case (Cons i "is")
  from Cons.prems [of i] obtain ds1 n1 where
    a1: "\<forall>stack \<ge> n1. deref_one stack objects i = Inr ds1"
    and b1: "dfs objects [i] ds1" and c1: "set ds1 = dicts_from objects [i]"
    unfolding settles_one_def by auto
  from Cons.IH Cons.prems obtain ds2 n2 where
    a2: "\<forall>stack \<ge> n2. deepSearchObjectsWithIds stack objects is = Inr ds2"
    and b2: "dfs objects is ds2" and c2: "set ds2 = dicts_from objects is"
    unfolding settles_def by auto
  have "deepSearchObjectsWithIds stack objects (i # is) = Inr (ds1 @ ds2)"
    if "stack \<ge> max (Suc n1) n2" for stack
  proof -
    from that obtain k where k: "stack = Suc k" "k \<ge> n1" by (cases stack) auto
    have "deref_one k objects i = Inr ds1" using a1 k by simp
    moreover have "deepSearchObjectsWithIds (Suc k) objects is = Inr ds2" using a2 k that by simp
    ultimately show ?thesis using k by (simp add: deepSearch_Cons bind_err_def)
  qed
  moreover have "dfs objects (i # is) (ds1 @ ds2)" using b1 b2 by (rule dfs_single_append)
  moreover have "set (ds1 @ ds2) = dicts_from objects (i # is)"
    using c1 c2 dicts_from_Cons [of objects i "is"] by simp
  ultimately show ?case unfolding settles_def by blast
qed

lemma settles_one_all:
  assumes ac: "acyclic (ref_edges objects)"
  shows "(\<forall>j \<in> reachable objects [i]. resolves objects j) \<Longrightarrow> settles_one objects i"
proof -
  have wf: "wf ((ref_edges objects)\<inverse>)"
    using finite_ref_edges ac by (rule finite_acyclic_wf_converse)
  show "(\<forall>j \<in> reachable objects [i]. resolves objects j) \<Longrightarrow> settles_one objects i"
    using wf
  proof (induction i rule: wf_induct_rule)
    case (less i)
    have "resolves objects i" using less.prems reachable_self by blast
    then obtain ob where ob: "find_object objects i = Some ob"
      and kind: "obj_dict ob \<noteq> None \<or> (\<exists>l rs. obj_list ob = Some l \<and> l_ref l = Some rs)"
      unfolding resolves_def by blast
    show ?case
    proof (cases "obj_dict ob")
      case (Some d)
      have nr: "refs_of objects i = None" using ob Some by (simp add: refs_of_def)
      have "\<forall>stack \<ge> 0. deref_one stack objects i = Inr [ob]"
        using ob Some by (simp add: deref_one_def bind_err_def need_def)
      moreover have "dfs objects [i] [ob]" using ob Some by (auto intro: dfs.intros)
      moreover have "set [ob] = dicts_from objects [i]"
        using ob Some by (auto simp: dicts_from_def reachable_no_refs [OF nr])
      ultimately show ?thesis unfolding settles_one_def by blast
    next
      case None
      then obtain l rs where l: "obj_list ob = Some l" and rs: "l_ref l = Some rs"
        using kind by auto
      have r: "refs_of objects i = Some rs" using ob None l rs by (simp add: refs_of_def)
      have reach: "reachable objects [i] = insert i (reachable objects rs)"
        by (rule reachable_refs [OF r])
      have "settles_one objects j" if "j \<in> set rs" for j
      proof (rule less.IH)
        show "(j, i) \<in> (ref_edges objects)\<inverse>" using r that by (auto simp: ref_edges_def)
        have "reachable objects [j] \<subseteq> reachable objects rs"
          using that by (auto simp: reachable_def)
        then show "\<forall>k \<in> reachable objects [j]. resolves objects k"
          using less.prems reach by blast
      qed
      then have "settles objects rs" by (rule settles_list)
      then obtain ds n where a: "\<forall>stack \<ge> n. deepSearchObjectsWithIds stack objects rs = Inr ds"
        and b: "dfs objects rs ds" and c: "set ds = dicts_from objects rs"
        unfolding settles_def by auto
      have "\<forall>stack \<ge> n. deref_one stack objects i = Inr ds"
        using a ob None l rs by (simp add: deref_one_def bind_err_def need_def)
      moreover have "dfs objects [i] ds"
        using dfs.dfs_list [OF r b dfs_Nil] by simp
      moreover have "set ds = dicts_from objects [i]"
        using c ob None by (auto simp: dicts_from_def reach)
      ultimately show ?thesis unfolding settles_one_def by blast
    qed
  qed
qed

text \<open>
  C9. For an acyclic graph in which every id reached from the initial references
  resolves to a dictionary or to a list of further references, the search returns: from
  some number of nested calls on, it gives one and the same list, and whenever it gives
  a list it is that one. The list is the depth-first list of the references, and its
  members are exactly the dictionaries found at the ids reached.
\<close>

theorem deepSearch_terminates_depth_first:
  assumes "acyclic (ref_edges objects)"
    and "\<forall>i \<in> reachable objects ids. resolves objects i"
  shows "\<exists>ds. (\<exists>n. \<forall>stack \<ge> n. deepSearchObjectsWithIds stack objects ids = Inr ds)
           \<and> (\<forall>stack r. deepSearchObjectsWithIds stack objects ids = Inr r \<longrightarrow> r = ds)
           \<and> dfs objects ids ds
           \<and> set ds = {ob. \<exists>i \<in> reachable objects ids.
                           find_object objects i = Some ob \<and> obj_dict ob \<noteq> None}"
proof -
  have "settles_one objects i" if "i \<in> set ids" for i
  proof (rule settles_one_all [OF assms(1)])
    have "reachable objects [i] \<subseteq> reachable objects ids"
      using that by (auto simp: reachable_def)
    then show "\<forall>j \<in> reachable objects [i]. resolves objects j" using assms(2) by blast
  qed
  then have "settles objects ids" by (rule settles_list)
  then obtain ds n where a: "\<forall>stack \<ge> n. deepSearchObjectsWithIds stack objects ids = Inr ds"
    and b: "dfs objects ids ds" and c: "set ds = dicts_from objects ids"
    unfolding settles_def by auto
  have "r = ds" if "deepSearchObjectsWithIds stack objects ids = Inr r" for stack r
  proof -
    have "deepSearchObjectsWithIds (max stack n) objects ids = Inr r"
      using deepSearch_mono [OF that] by simp
    moreover have "deepSearchObjectsWithIds (max stack n) objects ids = Inr ds"
      using a by simp
    ultimately show ?thesis by simp
  qed
  then show ?thesis using a b c unfolding dicts_from_def by blast
qed


lemma ex_refs:
  "refs_of ex_objects i = Some rs
   \<Longrightarrow> (i = ''5'' \<and> rs = [''7'', ''8'']) \<or> (i = ''8'' \<and> rs = [''9''])"
  by (auto simp: refs_of_def find_object_def ex_objects_def list_object_def dict_object_def
      split: if_splits)

theorem deepSearch_terminates_depth_first_witness:
  "deepSearchObjectsWithIds 3 ex_objects [''5'', ''6'']
     = Inr [dict_object ''7'', dict_object ''9'', dict_object ''6'']
   \<and> dfs ex_objects [''5'', ''6''] [dict_object ''7'', dict_object ''9'', dict_object ''6'']
   \<and> set [dict_object ''7'', dict_object ''9'', dict_object ''6'']
       = {ob. \<exists>i \<in> reachable ex_objects [''5'', ''6''].
               find_object ex_objects i = Some ob \<and> obj_dict ob \<noteq> None}"
proof -
  let ?rank = "\<lambda>i. if i = ''5'' then 2 else if i = ''8'' then 1 else (0 :: nat)"
  have ac: "acyclic (ref_edges ex_objects)"
  proof (rule acyclicI_order [where f = ?rank])
    fix a b assume "(a, b) \<in> ref_edges ex_objects"
    then obtain rs where "refs_of ex_objects a = Some rs" "b \<in> set rs"
      by (auto simp: ref_edges_def)
    then show "?rank b < ?rank a" using ex_refs [of a rs] by auto
  qed
  have closed: "j \<in> {''5'', ''6'', ''7'', ''8'', ''9''}"
    if "i \<in> {''5'', ''6'', ''7'', ''8'', ''9''}" "(i, j) \<in> ref_edges ex_objects" for i j
  proof -
    from that(2) obtain rs where "refs_of ex_objects i = Some rs" "j \<in> set rs"
      by (auto simp: ref_edges_def)
    then show ?thesis using ex_refs [of i rs] by auto
  qed
  have inside: "j \<in> {''5'', ''6'', ''7'', ''8'', ''9''}"
    if "(i, j) \<in> (ref_edges ex_objects)\<^sup>*" "i \<in> {''5'', ''6''}" for i j
    using that
  proof (induction rule: rtrancl_induct)
    case base
    then show ?case by auto
  next
    case (step y z)
    then show ?case using closed [of y z] by blast
  qed
  have res: "\<forall>i \<in> reachable ex_objects [''5'', ''6'']. resolves ex_objects i"
  proof
    fix j assume "j \<in> reachable ex_objects [''5'', ''6'']"
    then have "j \<in> {''5'', ''6'', ''7'', ''8'', ''9''}"
      using inside by (auto simp: reachable_def)
    then show "resolves ex_objects j"
      by (auto simp: resolves_def find_object_def ex_objects_def list_object_def dict_object_def)
  qed
  have ev: "deepSearchObjectsWithIds 3 ex_objects [''5'', ''6'']
      = Inr [dict_object ''7'', dict_object ''9'', dict_object ''6'']"
    by code_simp
  from deepSearch_terminates_depth_first [OF ac res] ev show ?thesis by blast
qed

subsection \<open>Links: geometric matching and textual fallback\<close>



lemma match_link_keeps:
  "wbox (match_link incl w l) = wbox w \<and> word_toString (match_link incl w l) = word_toString w"
  by (simp add: match_link_def word_toString_def split: prod.splits)

lemma match_links_snoc:
  "match_links incl (links @ [l]) w = match_link incl (match_links incl links w) l"
  by (simp add: match_links_def)

lemma match_links_keeps:
  "wbox (match_links incl links w) = wbox w
   \<and> word_toString (match_links incl links w) = word_toString w"
  by (induction links rule: rev_induct)
     (simp_all add: match_links_snoc match_link_keeps, simp add: match_links_def)


lemma buildLinkMD_same_text:
  "word_toString w' = word_toString w \<Longrightarrow> buildLinkMD w' l = buildLinkMD w l"
  by (simp add: buildLinkMD_def)

lemma match_link_eq:
  "match_link incl w l = (if exceeds (incl (a_box l) (wbox w)) then with_link w l else w)"
  by (simp add: match_link_def with_link_def split: prod.splits)

lemma with_link_keeps:
  "wbox (with_link w l) = wbox w \<and> word_toString (with_link w l) = word_toString w"
  by (simp add: with_link_def word_toString_def)

lemma map_upd_twice: "(f(x \<mapsto> a, y \<mapsto> b))(x \<mapsto> c, y \<mapsto> d) = f(x \<mapsto> c, y \<mapsto> d)"
  by (rule ext) simp

lemma with_link_twice: "with_link (with_link w m) l = with_link w l"
proof -
  have b: "buildLinkMD (with_link w m) l = buildLinkMD w l"
    by (rule buildLinkMD_same_text) (simp add: with_link_keeps)
  have "with_link (with_link w m) l =
      (with_link w m)\<lparr>properties := (properties (with_link w m))
          (''link'' \<mapsto> fst (buildLinkMD w l), ''targetURL'' \<mapsto> snd (buildLinkMD w l))\<rparr>"
    unfolding with_link_def [of "with_link w m" l] b by (rule refl)
  also have "\<dots> = with_link w l"
    by (simp add: with_link_def map_upd_twice)
  finally show ?thesis .
qed

lemma match_links_last:
  "match_links incl links w =
     (if filter (\<lambda>l. exceeds (incl (a_box l) (wbox w))) links = [] then w
      else with_link w (last (filter (\<lambda>l. exceeds (incl (a_box l) (wbox w))) links)))"
proof (induction links rule: rev_induct)
  case Nil
  show ?case by (simp add: match_links_def)
next
  case (snoc l links)
  let ?w' = "match_links incl links w"
  let ?ms = "filter (\<lambda>l. exceeds (incl (a_box l) (wbox w))) links"
  have box: "wbox ?w' = wbox w" using match_links_keeps [of incl links w] by simp
  show ?case
  proof (cases "exceeds (incl (a_box l) (wbox w))")
    case False
    have "match_links incl (links @ [l]) w = ?w'"
      using False box by (simp add: match_links_snoc match_link_eq)
    then show ?thesis using snoc False by simp
  next
    case True
    have "match_links incl (links @ [l]) w = with_link ?w' l"
      using True box by (simp add: match_links_snoc match_link_eq)
    also have "\<dots> = with_link w l"
    proof (cases "?ms = []")
      case True
      then show ?thesis using snoc by simp
    next
      case False
      then have "?w' = with_link w (last ?ms)" using snoc by simp
      then show ?thesis by (simp only: with_link_twice)
    qed
    finally show ?thesis using True by simp
  qed
qed


lemma link_text_not_empty: "fst (buildLinkMD w l) \<noteq> []"
  by (simp add: buildLinkMD_def Let_def)

text \<open>
  C4. Every word of a page is matched against the annotations of that page (those of the
  metadata with the number of the page). They are tested in the order of the list, each
  on the word as the earlier ones left it, and each whose overlap ratio with the word
  exceeds 0.7 overwrites \<open>link\<close> and \<open>targetURL\<close>: when some annotation passes, the word
  ends with the link built from the last one in the list that does, and when none does,
  the loop leaves the word as it was. Overlap ratios are not negative: the code compares
  the absolute value of the ratio with 0.7.
\<close>

theorem geometric_last_match_wins:
  assumes "\<forall>l \<in> set links. \<forall>x. incl (a_box l) (wbox w) = Some x \<longrightarrow> 0 \<le> x"
  shows "elements (link_page incl mdLinks pg)
           = map (\<lambda>e. case e of
                        EWord v \<Rightarrow>
                          EWord (link_word incl
                                   (filter (\<lambda>lnk. a_page lnk = pageNumber pg) mdLinks) v)
                      | EImage i \<Rightarrow> e)
               (elements pg)
       \<and> match_links incl (links @ [l]) w = match_link incl (match_links incl links w) l
       \<and> (filter (ratio_exceeds incl w) links \<noteq> [] \<longrightarrow>
            properties (link_word incl links w) ''link''
              = Some (fst (buildLinkMD w (last (filter (ratio_exceeds incl w) links))))
          \<and> properties (link_word incl links w) ''targetURL''
              = Some (snd (buildLinkMD w (last (filter (ratio_exceeds incl w) links)))))
       \<and> (filter (ratio_exceeds incl w) links = [] \<longrightarrow> match_links incl links w = w)"
proof -
  have same: "filter (\<lambda>l. exceeds (incl (a_box l) (wbox w))) links
      = filter (ratio_exceeds incl w) links"
  proof (rule filter_cong [OF refl])
    fix l assume "l \<in> set links"
    then have "\<forall>x. incl (a_box l) (wbox w) = Some x \<longrightarrow> 0 \<le> x" using assms by blast
    then show "exceeds (incl (a_box l) (wbox w)) = ratio_exceeds incl w l"
      by (auto simp: exceeds_def ratio_exceeds_def split: option.splits)
  qed
  let ?ms = "filter (ratio_exceeds incl w) links"
  have none: "match_links incl links w = w" if "?ms = []"
    using that match_links_last [of incl links w] same by simp
  have some: "match_links incl links w = with_link w (last ?ms)" if "?ms \<noteq> []"
    using that match_links_last [of incl links w] same by simp
  have final: "link_word incl links w = with_link w (last ?ms)" if "?ms \<noteq> []"
    using some [OF that] link_text_not_empty [of w "last ?ms"]
    by (simp add: link_word_def Let_def no_link_def with_link_def)
  have props: "properties (link_word incl links w) ''link'' = Some (fst (buildLinkMD w (last ?ms)))
      \<and> properties (link_word incl links w) ''targetURL'' = Some (snd (buildLinkMD w (last ?ms)))"
    if "?ms \<noteq> []"
    unfolding final [OF that] by (simp add: with_link_def)
  have pg: "elements (link_page incl mdLinks pg)
           = map (\<lambda>e. case e of
                        EWord v \<Rightarrow>
                          EWord (link_word incl
                                   (filter (\<lambda>lnk. a_page lnk = pageNumber pg) mdLinks) v)
                      | EImage i \<Rightarrow> e)
               (elements pg)"
    by (simp add: link_page_def Let_def)
  show ?thesis using pg none props match_links_snoc [of incl links l w] by blast
qed

theorem geometric_last_match_wins_witness:
  "filter (ratio_exceeds overlap_ratio (plain_word ''here'')) (links_of_metadata 5 (Some md_two_links))
     = links_of_metadata 5 (Some md_two_links)
   \<and> map (target \<circ> a_link) (links_of_metadata 5 (Some md_two_links))
       = [''https://first.example'', ''https://second.example'']
   \<and> properties (link_word overlap_ratio (links_of_metadata 5 (Some md_two_links)) (plain_word ''here''))
        ''link'' = Some ''[here](https://second.example)''
   \<and> properties (link_word overlap_ratio (links_of_metadata 5 (Some md_two_links)) (plain_word ''here''))
        ''targetURL'' = Some ''https://second.example''"
proof -
  let ?links = "links_of_metadata 5 (Some md_two_links)"
  let ?w = "plain_word ''here''"
  have r: "map (\<lambda>l. overlap_ratio (a_box l) (wbox ?w)) ?links = [Some 1, Some (50 / 63)]"
    by code_simp
  have len: "length ?links = 2" by code_simp
  have nonneg: "\<forall>l \<in> set ?links. \<forall>x. overlap_ratio (a_box l) (wbox ?w) = Some x \<longrightarrow> 0 \<le> x"
  proof
    fix l assume "l \<in> set ?links"
    then have "overlap_ratio (a_box l) (wbox ?w) \<in> set (map (\<lambda>l. overlap_ratio (a_box l) (wbox ?w)) ?links)"
      by simp
    then show "\<forall>x. overlap_ratio (a_box l) (wbox ?w) = Some x \<longrightarrow> 0 \<le> x"
      unfolding r by auto
  qed
  have f: "filter (ratio_exceeds overlap_ratio ?w) ?links = ?links" by code_simp
  have t: "map (target \<circ> a_link) ?links = [''https://first.example'', ''https://second.example'']"
    by code_simp
  have ne: "filter (ratio_exceeds overlap_ratio ?w) ?links \<noteq> []" using f len by auto
  have b: "buildLinkMD ?w (last ?links) = (''[here](https://second.example)'', ''https://second.example'')"
    by code_simp
  from geometric_last_match_wins [where links = ?links and incl = overlap_ratio and w = ?w,
      OF nonneg] ne f b t
  show ?thesis by simp
qed


text \<open>
  C5. The textual fallback runs only on a word that has no link after the geometric
  matching (the property is absent, or empty): a word with a link stays as the matching
  left it. On a word without, a text that matches the URL pattern gives the link
  \<open>[text](text)\<close> and the target \<open>text\<close>; otherwise a text that matches the mail pattern
  gives \<open>[text](mailto:text)\<close> and \<open>mailto:text\<close>; otherwise the word stays as it was, so
  that it gets no link property.
\<close>

theorem textual_fallback_without_link:
  "(\<not> no_link (match_links incl links w) \<longrightarrow>
      link_word incl links w = match_links incl links w)
   \<and> (no_link (match_links incl links w) \<and> matches_link (word_toString w) \<longrightarrow>
        properties (link_word incl links w) ''link''
          = Some (''['' @ word_toString w @ '']('' @ word_toString w @ '')'')
        \<and> properties (link_word incl links w) ''targetURL'' = Some (word_toString w))
   \<and> (no_link (match_links incl links w) \<and> \<not> matches_link (word_toString w)
        \<and> matches_mail (word_toString w) \<longrightarrow>
        properties (link_word incl links w) ''link''
          = Some (''['' @ word_toString w @ ''](mailto:'' @ word_toString w @ '')'')
        \<and> properties (link_word incl links w) ''targetURL'' = Some (''mailto:'' @ word_toString w))
   \<and> (no_link (match_links incl links w) \<and> \<not> matches_link (word_toString w)
        \<and> \<not> matches_mail (word_toString w) \<longrightarrow>
        link_word incl links w = match_links incl links w)"
proof -
  let ?w' = "match_links incl links w"
  have t: "word_toString ?w' = word_toString w"
    using match_links_keeps [of incl links w] by simp
  have a: "link_word incl links w = ?w'" if "\<not> no_link ?w'"
    using that by (simp add: link_word_def Let_def)
  have b: "link_word incl links w = matchTextualLinks ?w'" if "no_link ?w'"
    using that by (simp add: link_word_def Let_def)
  have c: "properties (matchTextualLinks ?w') ''link''
          = Some (''['' @ word_toString w @ '']('' @ word_toString w @ '')'')
        \<and> properties (matchTextualLinks ?w') ''targetURL'' = Some (word_toString w)"
    if "matches_link (word_toString w)"
    using that t by (simp add: matchTextualLinks_def)
  have d: "properties (matchTextualLinks ?w') ''link''
          = Some (''['' @ word_toString w @ ''](mailto:'' @ word_toString w @ '')'')
        \<and> properties (matchTextualLinks ?w') ''targetURL'' = Some (''mailto:'' @ word_toString w)"
    if "\<not> matches_link (word_toString w)" "matches_mail (word_toString w)"
    using that t by (simp add: matchTextualLinks_def)
  have e: "matchTextualLinks ?w' = ?w'"
    if "\<not> matches_link (word_toString w)" "\<not> matches_mail (word_toString w)"
    using that t by (simp add: matchTextualLinks_def)
  show ?thesis using a b c d e by simp
qed

theorem textual_fallback_without_link_witness:
  "no_link (match_links overlap_ratio [] (plain_word ''https://example.com''))
   \<and> matches_link (word_toString (plain_word ''https://example.com''))
   \<and> properties (link_word overlap_ratio [] (plain_word ''https://example.com'')) ''link''
       = Some ''[https://example.com](https://example.com)''
   \<and> properties (link_word overlap_ratio [] (plain_word ''https://example.com'')) ''targetURL''
       = Some ''https://example.com''"
proof -
  let ?w = "plain_word ''https://example.com''"
  have n: "no_link (match_links overlap_ratio [] ?w)" by code_simp
  have t: "word_toString ?w = ''https://example.com''" by code_simp
  have m: "matches_link (word_toString ?w)" by code_simp
  from textual_fallback_without_link [of overlap_ratio "[]" ?w] n m
  have "properties (link_word overlap_ratio [] ?w) ''link''
          = Some (''['' @ word_toString ?w @ '']('' @ word_toString ?w @ '')'')
        \<and> properties (link_word overlap_ratio [] ?w) ''targetURL'' = Some (word_toString ?w)"
    by blast
  then show ?thesis using n m unfolding t by simp
qed

text \<open>
  C6 at a failing input. When \<open>dumppdf\<close> exits with code 0 and leaves XML that
  \<open>parseXmlToObject\<close> rejects, the promise of the metadata is never settled and \<open>main\<close>
  never returns the document. When the tool is not found or exits with another code,
  \<open>main\<close> returns the document, matched against no annotation. When reading the
  objects fails at the second page, the annotations of the first page are kept.
\<close>

theorem main_unsettled_on_bad_xml:
  "main incl stack md_bad_xml doc = Pending
   \<and> main incl stack md_no_tool doc = Fulfilled (doc\<lparr>pages := map (link_page incl []) (pages doc)\<rparr>)
   \<and> main incl stack md_exit1 doc = Fulfilled (doc\<lparr>pages := map (link_page incl []) (pages doc)\<rparr>)
   \<and> (case extractLinksFromMetadata 5 (md_run md_second_page_fails) of
         Fulfilled ls \<Rightarrow> map (target \<circ> a_link) ls
       | _ \<Rightarrow> []) = [''https://first.example'']"
proof -
  have a: "main incl stack md_bad_xml doc = Pending"
    by (simp add: main_def extractLinksFromMetadata_def getFileMetadata_def md_bad_xml_def)
  have b: "main incl stack md_no_tool doc
      = Fulfilled (doc\<lparr>pages := map (link_page incl []) (pages doc)\<rparr>)"
    by (simp add: main_def extractLinksFromMetadata_def getFileMetadata_def md_no_tool_def)
  have c: "main incl stack md_exit1 doc
      = Fulfilled (doc\<lparr>pages := map (link_page incl []) (pages doc)\<rparr>)"
    by (simp add: main_def extractLinksFromMetadata_def getFileMetadata_def md_exit1_def)
  have d: "(case extractLinksFromMetadata 5 (md_run md_second_page_fails) of
         Fulfilled ls \<Rightarrow> map (target \<circ> a_link) ls
       | _ \<Rightarrow> []) = [''https://first.example'']"
    by code_simp
  show ?thesis using a b c d by simp
qed

subsection \<open>Module names\<close>

lemma upper_not_lower: "is_upper c \<Longrightarrow> \<not> is_lower c"
  by (simp add: is_upper_def is_lower_def)

lemma lower_not_upper: "is_lower c \<Longrightarrow> \<not> is_upper c"
  by (simp add: is_upper_def is_lower_def)

lemma lower_char_of_lower: "is_lower c \<Longrightarrow> lower_char c = c"
  by (simp add: lower_char_def lower_not_upper)

lemma lower_char_of_upper:
  "is_upper c \<Longrightarrow> is_lower (lower_char c) \<and> upper_char (lower_char c) = c"
  by (simp add: lower_char_def upper_char_def is_lower_def is_upper_def)

lemma lower_not_dash: "is_lower c \<Longrightarrow> c \<noteq> CHR ''-''"
  by (auto simp: is_lower_def)

lemma lower_char_dash: "lower_char CHR ''-'' = CHR ''-''"
  by (simp add: lower_char_def is_upper_def)

lemma toLowerCase_lowers: "list_all is_lower cs \<Longrightarrow> toLowerCase cs = cs"
  by (induction cs) (auto simp: toLowerCase_def lower_char_of_lower)

lemma toLowerCase_append: "toLowerCase (xs @ ys) = toLowerCase xs @ toLowerCase ys"
  by (simp add: toLowerCase_def)

lemma hyphenate_not_lower: "\<not> is_lower a \<Longrightarrow> hyphenate (a # cs) = a # hyphenate cs"
  by (cases cs) auto

lemma hyphenate_lowers:
  "cs \<noteq> [] \<Longrightarrow> list_all is_lower cs \<Longrightarrow> rest = [] \<or> is_upper (hd rest)
   \<Longrightarrow> hyphenate (cs @ rest) = cs @ (if rest = [] then [] else CHR ''-'' # hyphenate rest)"
proof (induction cs)
  case Nil
  then show ?case by simp
next
  case (Cons a cs)
  show ?case
  proof (cases cs)
    case Nil
    show ?thesis
    proof (cases rest)
      case Nil
      then show ?thesis using \<open>cs = []\<close> by simp
    next
      case (Cons b r)
      then have b: "is_upper b" using Cons.prems(3) by simp
      then have "hyphenate (b # r) = b # hyphenate r"
        by (simp add: hyphenate_not_lower upper_not_lower)
      then show ?thesis using \<open>cs = []\<close> Cons b Cons.prems(2) by simp
    qed
  next
    case (Cons a' cs')
    then have "\<not> is_upper a'" using Cons.prems(2) by (simp add: lower_not_upper)
    then have "hyphenate ((a # cs) @ rest) = a # hyphenate (cs @ rest)"
      using Cons by simp
    moreover have "hyphenate (cs @ rest) = cs @ (if rest = [] then [] else CHR ''-'' # hyphenate rest)"
      using Cons.IH Cons.prems Cons by simp
    ultimately show ?thesis by simp
  qed
qed

lemma hyphenate_word:
  assumes "cap_word w" and "rest = [] \<or> is_upper (hd rest)"
  shows "hyphenate (w @ rest) = w @ (if rest = [] then [] else CHR ''-'' # hyphenate rest)"
proof -
  from assms(1) obtain c cs where w: "w = c # cs" and c: "is_upper c" and cs: "cs \<noteq> []"
    and l: "list_all is_lower cs"
    by (auto simp: cap_word_def split: list.splits)
  have "hyphenate (w @ rest) = c # hyphenate (cs @ rest)"
    using w c by (simp add: hyphenate_not_lower upper_not_lower del: hyphenate.simps)
  then show ?thesis using hyphenate_lowers [OF cs l assms(2)] w by simp
qed

lemma cap_word_hd: "cap_word w \<Longrightarrow> w \<noteq> [] \<and> is_upper (hd w)"
  by (auto simp: cap_word_def split: list.splits)

lemma hyphenate_words:
  "\<forall>w \<in> set ws. cap_word w \<Longrightarrow> hyphenate (concat ws) = join_with ''-'' ws"
proof (induction ws)
  case Nil
  show ?case by simp
next
  case (Cons w ws)
  show ?case
  proof (cases ws)
    case Nil
    then show ?thesis using Cons.prems hyphenate_word [of w "[]"] by simp
  next
    case (Cons v vs)
    have v: "v \<noteq> [] \<and> is_upper (hd v)" using Cons.prems Cons cap_word_hd by simp
    then have r: "concat ws \<noteq> []" "is_upper (hd (concat ws))" using Cons by auto
    have "hyphenate (w @ concat ws) = w @ CHR ''-'' # hyphenate (concat ws)"
      using hyphenate_word [of w "concat ws"] Cons.prems r by simp
    then show ?thesis using Cons.IH Cons.prems Cons by simp
  qed
qed

lemma toLowerCase_join:
  "toLowerCase (join_with ''-'' ws) = join_with ''-'' (map toLowerCase ws)"
proof (induction ws)
  case Nil
  show ?case by (simp add: toLowerCase_def)
next
  case (Cons w ws)
  show ?case
  proof (cases ws)
    case Nil
    then show ?thesis by simp
  next
    case (Cons v vs)
    then show ?thesis using Cons.IH by (simp add: toLowerCase_def lower_char_dash)
  qed
qed

lemma join_with_alt: "join_with sep (w # ws) = w @ concat (map (\<lambda>v. sep @ v) ws)"
  by (induction ws arbitrary: w) auto

lemma join_with_snoc: "vs \<noteq> [] \<Longrightarrow> join_with sep (vs @ [v]) = join_with sep vs @ sep @ v"
  by (cases vs) (auto simp: join_with_alt)

lemma join_with_empty: "join_with [] ws = concat ws"
proof (induction ws)
  case Nil
  show ?case by simp
next
  case (Cons w ws)
  then show ?case by (cases ws) auto
qed

lemma strip_lowers: "list_all is_lower w \<Longrightarrow> strip_module (w @ rest) = w @ strip_module rest"
proof (induction w)
  case Nil
  show ?case by simp
next
  case (Cons a w)
  then have "a \<noteq> CHR ''-''" by (simp add: lower_not_dash)
  then have "strip_module (a # w @ rest) = a # strip_module (w @ rest)" by simp
  then show ?case using Cons by simp
qed

lemma prefix_module_lowers:
  assumes "list_all is_lower w" and "rest = [] \<or> hd rest = CHR ''-''"
  shows "prefix ''module'' (w @ rest) \<longleftrightarrow> prefix ''module'' w"
proof
  assume "prefix ''module'' (w @ rest)"
  then consider "prefix ''module'' w" | us where "''module'' = w @ us" "prefix us rest"
    by (auto simp: prefix_append)
  then show "prefix ''module'' w"
  proof cases
    case 1
    then show ?thesis .
  next
    case 2
    show ?thesis
    proof (cases us)
      case Nil
      then show ?thesis using 2 by simp
    next
      case (Cons u us')
      then obtain r where "rest = u # r" using 2(2) by (cases rest) auto
      then have "u = CHR ''-''" using assms(2) by simp
      then have "CHR ''-'' \<in> set (w @ us)" using Cons by simp
      then have "CHR ''-'' \<in> set ''module''" using 2(1) by simp
      then show ?thesis by simp
    qed
  qed
next
  assume "prefix ''module'' w"
  then show "prefix ''module'' (w @ rest)" by (rule prefix_prefix)
qed

lemma strip_dash_word:
  assumes "list_all is_lower w" and "\<not> prefix ''module'' w" and "rest = [] \<or> hd rest = CHR ''-''"
  shows "strip_module (CHR ''-'' # w @ rest) = CHR ''-'' # w @ strip_module rest"
proof -
  have "prefix ''-module'' (CHR ''-'' # w @ rest) \<longleftrightarrow> prefix ''module'' (w @ rest)" by simp
  then have "\<not> prefix ''-module'' (CHR ''-'' # w @ rest)"
    using prefix_module_lowers [OF assms(1) assms(3)] assms(2) by simp
  then have "strip_module (CHR ''-'' # w @ rest) = CHR ''-'' # strip_module (w @ rest)"
    by simp
  then show ?thesis using strip_lowers [OF assms(1)] by simp
qed

lemma strip_dash_words:
  "\<forall>w \<in> set mid. list_all is_lower w \<and> \<not> prefix ''module'' w
   \<Longrightarrow> strip_module (concat (map (\<lambda>v. ''-'' @ v) mid) @ ''-module'')
       = concat (map (\<lambda>v. ''-'' @ v) mid)"
proof (induction mid)
  case Nil
  show ?case by simp
next
  case (Cons w mid)
  let ?rest = "concat (map (\<lambda>v. ''-'' @ v) mid) @ ''-module''"
  have r: "?rest = [] \<or> hd ?rest = CHR ''-''" by (cases mid) auto
  have "strip_module (CHR ''-'' # w @ ?rest) = CHR ''-'' # w @ strip_module ?rest"
    using strip_dash_word [of w ?rest] Cons.prems r by simp
  then show ?case using Cons by simp
qed


lemma split_on_not_Nil: "split_on c xs \<noteq> []"
  by (induction xs) (auto split: list.splits)

lemma split_no_sep: "c \<notin> set w \<Longrightarrow> split_on c w = [w]"
  by (induction w) auto

lemma split_sep: "c \<notin> set w \<Longrightarrow> split_on c (w @ c # rest) = w # split_on c rest"
  by (induction w) (auto split: list.splits simp: split_on_not_Nil)

lemma split_join:
  "vs \<noteq> [] \<Longrightarrow> \<forall>v \<in> set vs. CHR ''-'' \<notin> set v
   \<Longrightarrow> split_on CHR ''-'' (join_with ''-'' vs) = vs"
proof (induction vs)
  case Nil
  then show ?case by simp
next
  case (Cons v vs)
  show ?case
  proof (cases vs)
    case Nil
    then show ?thesis using Cons.prems by (simp add: split_no_sep)
  next
    case (Cons u us)
    have "split_on CHR ''-'' (v @ CHR ''-'' # join_with ''-'' vs) = v # split_on CHR ''-'' (join_with ''-'' vs)"
      using Cons.prems by (simp add: split_sep)
    then show ?thesis using Cons.IH Cons.prems Cons by simp
  qed
qed

lemma traverse_map_back: "\<forall>x \<in> set xs. f (g x) = Inr x \<Longrightarrow> traverse f (map g xs) = Inr xs"
  by (induction xs) auto

lemma cap_word_Module: "cap_word ''Module''"
  by (simp add: cap_word_def is_upper_def is_lower_def)

lemma lowered_word:
  assumes "cap_word w"
  shows "list_all is_lower (toLowerCase w)" and "CHR ''-'' \<notin> set (toLowerCase w)"
    and "capitalise (toLowerCase w) = Inr w"
    and "prefix ''module'' (toLowerCase w) \<longleftrightarrow> prefix ''Module'' w"
proof -
  from assms obtain c cs where w: "w = c # cs" and c: "is_upper c" and l: "list_all is_lower cs"
    by (auto simp: cap_word_def split: list.splits)
  have t: "toLowerCase w = lower_char c # cs"
    using w toLowerCase_lowers [OF l] by (simp add: toLowerCase_def)
  show low: "list_all is_lower (toLowerCase w)"
    using t l lower_char_of_upper [OF c] by simp
  show "CHR ''-'' \<notin> set (toLowerCase w)"
    using low lower_not_dash by (auto simp: list_all_iff)
  show "capitalise (toLowerCase w) = Inr w"
    using t w lower_char_of_upper [OF c] toLowerCase_lowers [OF l] by (simp add: capitalise_def)
  have "lower_char c = CHR ''m'' \<longleftrightarrow> c = CHR ''M''"
  proof
    have um: "upper_char CHR ''m'' = CHR ''M''" by code_simp
    assume "lower_char c = CHR ''m''"
    then have "upper_char (lower_char c) = CHR ''M''" using um by simp
    then show "c = CHR ''M''" using lower_char_of_upper [OF c] by simp
  next
    have lm: "lower_char CHR ''M'' = CHR ''m''" by code_simp
    assume "c = CHR ''M''"
    then show "lower_char c = CHR ''m''" using lm by simp
  qed
  then show "prefix ''module'' (toLowerCase w) \<longleftrightarrow> prefix ''Module'' w"
    using t w by auto
qed

text \<open>
  C10, as the code has it. Let the name of a module directory be a sequence of
  capitalized words followed by \<open>Module\<close>, at least one word before it, and let no
  word but the first begin with \<open>Module\<close>. Then \<open>getModules\<close> gives the words in lower
  case joined by hyphens, and from that name \<open>getModuleConfig\<close> builds the name of the
  directory again, and reads the default configuration there.
\<close>

theorem module_name_round_trip:
  assumes "ws \<noteq> []" and "\<forall>w \<in> set ws. cap_word w"
    and "\<forall>w \<in> set (tl ws). \<not> prefix ''Module'' w"
  shows "getModules [\<lparr>dirent_name = concat ws @ ''Module'', isDirectory = True\<rparr>]
           = [join_with ''-'' (map toLowerCase ws)]
       \<and> moduleFolderName (join_with ''-'' (map toLowerCase ws)) = Inr (concat ws @ ''Module'')
       \<and> getModuleConfig_path (join_with ''-'' (map toLowerCase ws))
           = Inr (defaultModulesFolder @ ''/'' @ (concat ws @ ''Module'') @ ''/defaultConfig.json'')"
proof -
  let ?lws = "map toLowerCase ws"
  obtain w1 mid where ws: "ws = w1 # mid" using assms(1) by (cases ws) auto
  have all: "\<forall>w \<in> set (ws @ [''Module'']). cap_word w"
    using assms(2) cap_word_Module by simp
  have lowM: "toLowerCase ''Module'' = ''module''" by code_simp
  have h: "hyphenate (concat ws @ ''Module'') = join_with ''-'' (ws @ [''Module''])"
    using hyphenate_words [OF all] by simp
  have l: "toLowerCase (hyphenate (concat ws @ ''Module'')) = join_with ''-'' (?lws @ [''module''])"
    unfolding h toLowerCase_join using lowM by simp
  have shape: "join_with ''-'' (?lws @ [''module''])
      = toLowerCase w1 @ concat (map (\<lambda>v. ''-'' @ v) (map toLowerCase mid)) @ ''-module''"
    using ws by (simp add: join_with_alt)
  have mid: "\<forall>w \<in> set (map toLowerCase mid). list_all is_lower w \<and> \<not> prefix ''module'' w"
    using assms(2,3) ws lowered_word(1,4) by auto
  have s: "strip_module (join_with ''-'' (?lws @ [''module''])) = join_with ''-'' ?lws"
  proof -
    have "strip_module (toLowerCase w1 @ concat (map (\<lambda>v. ''-'' @ v) (map toLowerCase mid)) @ ''-module'')
        = toLowerCase w1 @ strip_module (concat (map (\<lambda>v. ''-'' @ v) (map toLowerCase mid)) @ ''-module'')"
      using strip_lowers lowered_word(1) assms(2) ws by simp
    also have "\<dots> = toLowerCase w1 @ concat (map (\<lambda>v. ''-'' @ v) (map toLowerCase mid))"
      using strip_dash_words [OF mid] by simp
    also have "\<dots> = join_with ''-'' ?lws" using ws by (simp add: join_with_alt)
    finally show ?thesis unfolding shape .
  qed
  have g: "getModules [\<lparr>dirent_name = concat ws @ ''Module'', isDirectory = True\<rparr>]
      = [join_with ''-'' ?lws]"
    using l s by (simp add: getModules_def)
  have ne: "?lws \<noteq> []" using assms(1) by simp
  have j: "join_with ''-'' ?lws @ ''-module'' = join_with ''-'' (?lws @ [''module''])"
    using join_with_snoc [OF ne, of "''-''" "''module''"] by simp
  have nodash: "\<forall>v \<in> set (?lws @ [''module'']). CHR ''-'' \<notin> set v"
    using assms(2) lowered_word(2) by auto
  have sp: "split_on CHR ''-'' (join_with ''-'' ?lws @ ''-module'') = ?lws @ [''module'']"
    unfolding j using split_join [OF _ nodash] by simp
  have "\<forall>x \<in> set (ws @ [''Module'']). capitalise (toLowerCase x) = Inr x"
    using all lowered_word(3) by blast
  then have "traverse capitalise (map toLowerCase (ws @ [''Module''])) = Inr (ws @ [''Module''])"
    by (rule traverse_map_back)
  then have tr: "traverse capitalise (?lws @ [''module'']) = Inr (ws @ [''Module''])"
    using lowM by simp
  have f: "moduleFolderName (join_with ''-'' ?lws) = Inr (concat ws @ ''Module'')"
    unfolding moduleFolderName_def sp tr by (simp add: join_with_empty)
  show ?thesis using g f by (simp add: getModuleConfig_path_def)
qed

text \<open>
  C10, as the claim has it, fails for \<open>LinkModulesModule\<close>: every \<open>-module\<close> is removed,
  not only the last, so the name becomes \<open>links\<close>, from which \<open>LinksModule\<close> is built.
\<close>

theorem module_name_counterexample:
  "cap_word ''Link'' \<and> cap_word ''Modules'' \<and> cap_word ''Module''
   \<and> getModules [\<lparr>dirent_name = ''LinkModulesModule'', isDirectory = True\<rparr>] = [''links'']
   \<and> moduleFolderName ''links'' = Inr ''LinksModule''"
  by code_simp

theorem module_name_round_trip_witness:
  "[''Link'', ''Detection''] \<noteq> []
   \<and> getModules [\<lparr>dirent_name = ''LinkDetectionModule'', isDirectory = True\<rparr>] = [''link-detection'']
   \<and> moduleFolderName ''link-detection'' = Inr ''LinkDetectionModule''
   \<and> getModuleConfig_path ''link-detection''
       = Inr ''../../server/src/processing/LinkDetectionModule/defaultConfig.json''"
proof -
  let ?ws = "[''Link'', ''Detection'']"
  have a: "?ws \<noteq> []" by simp
  have b: "\<forall>w \<in> set ?ws. cap_word w" by code_simp
  have c: "\<forall>w \<in> set (tl ?ws). \<not> prefix ''Module'' w" by simp
  have k: "join_with ''-'' (map toLowerCase ?ws) = ''link-detection''" by code_simp
  have n: "concat ?ws @ ''Module'' = ''LinkDetectionModule''" by simp
  show ?thesis
    using module_name_round_trip [OF a b c] unfolding k n
    by (simp add: defaultModulesFolder_def)
qed

end
